theory Spec2Isabelle
  imports Main "HOL-Library.Multiset"
begin

section \<open>JavaScript numbers\<close>

text \<open>
  The quantities of the program are JavaScript numbers, that is IEEE doubles: timestamps in
  milliseconds and intervals in days. A number is modelled as \<open>Num n\<close> for an integer \<open>n\<close>
  that a double represents, as an infinity or as \<open>NaN\<close>. Numbers with a fraction do not
  arise: the inputs are whole numbers and the one division of the program is floored at
  once. Negative zero is not told apart from zero; in this program the sign of a zero
  never reaches a result.
\<close>

datatype jsnum = Num int | PosInf | NegInf | NaN

subsection \<open>Rounding to a double\<close>

text \<open>
  \<open>rne_div n d\<close> is the integer nearest to \<open>n / d\<close> for \<open>d > 0\<close>, the even one of two
  that are equally near.
\<close>

definition rne_div :: "int \<Rightarrow> int \<Rightarrow> int" where
  "rne_div n d =
     (let q = n div d; r = n mod d
      in if 2 * r < d then q else if d < 2 * r then q + 1 else if even q then q else q + 1)"

text \<open>
  A double has a significand of 53 bits. For \<open>0 < a < 2^52 * b\<close>, \<open>scaleUp a b\<close> is the
  number of doublings that bring \<open>a / b\<close> to at least \<open>2^52\<close>; for \<open>a \<ge> 2^53 * b\<close>,
  \<open>scaleDown a b\<close> is the number of halvings that bring \<open>a / b\<close> below \<open>2^53\<close>.
\<close>

function scaleUp :: "int \<Rightarrow> int \<Rightarrow> nat" where
  "scaleUp a b =
     (if a \<le> 0 \<or> b \<le> 0 \<or> 4503599627370496 * b \<le> a then 0 else Suc (scaleUp (2 * a) b))"
  by pat_completeness auto
termination
  by (relation "measure (\<lambda>(a, b). nat (4503599627370496 * b - a))") auto

function scaleDown :: "int \<Rightarrow> int \<Rightarrow> nat" where
  "scaleDown a b =
     (if b \<le> 0 \<or> a < 9007199254740992 * b then 0 else Suc (scaleDown a (2 * b)))"
  by pat_completeness auto
termination
  by (relation "measure (\<lambda>(a, b). nat (a + 1 - 9007199254740992 * b))") auto

declare scaleUp.simps [simp del] scaleDown.simps [simp del]

text \<open>
  \<open>Math.floor(a / b)\<close> for integers \<open>a\<close> and \<open>b > 0\<close>: the quotient is rounded to 53
  significant bits, to the nearest double and to the even one of two equally near, and the
  result is floored. Below \<open>2^53\<close> in magnitude the rounded quotient is a multiple of a
  power \<open>2^-s\<close>; from \<open>2^53\<close> on it is a whole multiple of a power \<open>2^k\<close>.
\<close>

definition floorOfQuotient :: "int \<Rightarrow> int \<Rightarrow> int" where
  "floorOfQuotient a b =
     (let m = \<bar>a\<bar>
      in if m < 9007199254740992 * b
         then (let s = scaleUp m b; M = rne_div (m * 2 ^ s) b
               in if 0 \<le> a then M div 2 ^ s else (- M) div 2 ^ s)
         else (let k = scaleDown m b; M = rne_div m (b * 2 ^ k)
               in sgn a * (M * 2 ^ k)))"

text \<open>The double nearest to an integer, and the number that an exact integer result becomes.\<close>

definition js_round :: "int \<Rightarrow> int" where
  "js_round n = floorOfQuotient n 1"

definition js_of_int :: "int \<Rightarrow> jsnum" where
  "js_of_int n =
     (if \<bar>n\<bar> \<le> 9007199254740992 then Num n
      else if 2 ^ 1024 - 2 ^ 970 \<le> \<bar>n\<bar> then (if 0 < n then PosInf else NegInf)
      else Num (js_round n))"

subsection \<open>The operators\<close>

fun js_add :: "jsnum \<Rightarrow> jsnum \<Rightarrow> jsnum" where
  "js_add (Num a) (Num b) = js_of_int (a + b)"
| "js_add NaN _ = NaN"
| "js_add _ NaN = NaN"
| "js_add PosInf NegInf = NaN"
| "js_add NegInf PosInf = NaN"
| "js_add PosInf _ = PosInf"
| "js_add _ PosInf = PosInf"
| "js_add NegInf _ = NegInf"
| "js_add _ NegInf = NegInf"

fun js_neg :: "jsnum \<Rightarrow> jsnum" where
  "js_neg (Num a) = Num (- a)"
| "js_neg PosInf = NegInf"
| "js_neg NegInf = PosInf"
| "js_neg NaN = NaN"

definition js_sub :: "jsnum \<Rightarrow> jsnum \<Rightarrow> jsnum" where
  "js_sub a b = js_add a (js_neg b)"

text \<open>The sign of a number that is not \<open>NaN\<close>: \<open>-1\<close>, \<open>0\<close> or \<open>1\<close>.\<close>

fun js_sign :: "jsnum \<Rightarrow> int" where
  "js_sign (Num a) = sgn a"
| "js_sign PosInf = 1"
| "js_sign NegInf = - 1"
| "js_sign NaN = 0"

definition inf_of_sign :: "int \<Rightarrow> jsnum" where
  "inf_of_sign s = (if s = 0 then NaN else if 0 < s then PosInf else NegInf)"

fun js_mul :: "jsnum \<Rightarrow> jsnum \<Rightarrow> jsnum" where
  "js_mul (Num a) (Num b) = js_of_int (a * b)"
| "js_mul NaN _ = NaN"
| "js_mul _ NaN = NaN"
| "js_mul a b = inf_of_sign (js_sign a * js_sign b)"

text \<open>
  \<open>Math.floor(a / b)\<close>. A zero divisor gives an infinity, or \<open>NaN\<close> for \<open>0 / 0\<close>; a finite
  number divided by an infinity is zero.
\<close>

fun js_floor_div :: "jsnum \<Rightarrow> jsnum \<Rightarrow> jsnum" where
  "js_floor_div (Num a) (Num b) =
     (if b = 0 then inf_of_sign (sgn a)
      else if 0 < b then Num (floorOfQuotient a b)
      else Num (floorOfQuotient (- a) (- b)))"
| "js_floor_div NaN _ = NaN"
| "js_floor_div _ NaN = NaN"
| "js_floor_div (Num a) _ = Num 0"
| "js_floor_div a (Num b) = inf_of_sign (js_sign a * (if b < 0 then - 1 else 1))"
| "js_floor_div _ _ = NaN"

text \<open>The comparisons \<open>a < b\<close> and \<open>a >= b\<close>: both are false when an operand is \<open>NaN\<close>.\<close>

fun js_lt :: "jsnum \<Rightarrow> jsnum \<Rightarrow> bool" where
  "js_lt (Num a) (Num b) = (a < b)"
| "js_lt NaN _ = False"
| "js_lt _ NaN = False"
| "js_lt _ NegInf = False"
| "js_lt PosInf _ = False"
| "js_lt _ _ = True"

fun js_ge :: "jsnum \<Rightarrow> jsnum \<Rightarrow> bool" where
  "js_ge NaN _ = False"
| "js_ge _ NaN = False"
| "js_ge a b = (\<not> js_lt a b)"

subsection \<open>Values of number fields, dates and strings\<close>

text \<open>
  A field that TypeScript types as \<open>number\<close> holds a number or, after \<open>JSON.parse\<close> has
  read a \<open>null\<close>, the value \<open>null\<close>. The arithmetic operators convert \<open>null\<close> to \<open>0\<close>.
  \<open>JSON.stringify\<close> writes a finite number as it is and \<open>null\<close> for every other value.
\<close>

datatype jsval = Number jsnum | Null

fun toNumber :: "jsval \<Rightarrow> jsnum" where
  "toNumber (Number x) = x"
| "toNumber Null = Num 0"

fun toJSON :: "jsval \<Rightarrow> jsval" where
  "toJSON (Number (Num n)) = Number (Num n)"
| "toJSON _ = Null"

text \<open>
  A \<open>Date\<close> holds a time value or is an invalid date. \<open>new Date(x)\<close> is invalid when \<open>x\<close>
  is not finite or beyond 8.64e15 milliseconds from the epoch, and \<open>getTime()\<close> of an
  invalid date is \<open>NaN\<close>.
\<close>

datatype Date = Date int | InvalidDate

fun new_Date :: "jsnum \<Rightarrow> Date" where
  "new_Date (Num t) = (if \<bar>t\<bar> \<le> 8640000000000000 then Date t else InvalidDate)"
| "new_Date _ = InvalidDate"

fun getTime :: "Date \<Rightarrow> jsnum" where
  "getTime (Date t) = Num t"
| "getTime InvalidDate = NaN"

text \<open>A string is its sequence of UTF-16 code units.\<close>

type_synonym js_string = "nat list"

definition ascii :: "string \<Rightarrow> js_string" where
  "ascii s = map of_char s"

section \<open>types.ts\<close>

datatype role = User | Model

record ChatMessage =
  role :: role
  msgText :: js_string

record Reminder =
  plantName :: js_string
  interval :: jsval
  startDate :: jsval

text \<open>The element type of the \<open>reminders\<close> state: \<open>Reminder & { nextWateringDate: Date }\<close>.\<close>

record DerivedReminder = Reminder +
  nextWateringDate :: Date

section \<open>The reminders load effect: the derived date\<close>

definition msInDay :: int where
  "msInDay = 24 * 60 * 60 * 1000"

text \<open>
  Lines 141 to 146 of the load effect, for one stored reminder and one reading \<open>now\<close> of
  \<open>Date.now()\<close>, which is a time value: an integer of magnitude at most 8.64e15.
\<close>

definition nextWateringTimestamp :: "int \<Rightarrow> 'a Reminder_scheme \<Rightarrow> jsnum" where
  "nextWateringTimestamp now reminder =
     (let intervalMs = js_mul (toNumber (interval reminder)) (Num msInDay);
          timeSinceStart = js_sub (Num now) (toNumber (startDate reminder));
          intervalsPassed = js_floor_div timeSinceStart intervalMs
      in js_add (toNumber (startDate reminder))
           (js_mul (js_add intervalsPassed (Num 1)) intervalMs))"

section \<open>Array.prototype.sort with a comparator\<close>

text \<open>
  \<open>xs.sort(cmp)\<close> is stable and places \<open>a\<close> after \<open>b\<close> only when \<open>cmp(a, b) > 0\<close>;
  a comparator result of \<open>NaN\<close> counts as \<open>0\<close>. It is modelled as a stable insertion
  sort. For a comparator that is not a consistent ordering (one that returns \<open>NaN\<close>) the
  language leaves the order open, and nothing is claimed about it below.
\<close>

fun js_insert :: "('a \<Rightarrow> 'a \<Rightarrow> jsnum) \<Rightarrow> 'a \<Rightarrow> 'a list \<Rightarrow> 'a list" where
  "js_insert cmp x [] = [x]"
| "js_insert cmp x (y # ys) =
     (if js_lt (Num 0) (cmp x y) then y # js_insert cmp x ys else x # y # ys)"

definition js_sort :: "('a \<Rightarrow> 'a \<Rightarrow> jsnum) \<Rightarrow> 'a list \<Rightarrow> 'a list" where
  "js_sort cmp xs = foldr (js_insert cmp) xs []"

text \<open>The comparator of lines 156 and 260: \<open>a.nextWateringDate.getTime() - b.nextWateringDate.getTime()\<close>.\<close>

definition byNextWateringDate :: "DerivedReminder \<Rightarrow> DerivedReminder \<Rightarrow> jsnum" where
  "byNextWateringDate a b = js_sub (getTime (nextWateringDate a)) (getTime (nextWateringDate b))"

text \<open>The time value of a valid date, used to state orderings in the proofs.\<close>

definition dateValue :: "Date \<Rightarrow> int" where
  "dateValue d = (case d of Date t \<Rightarrow> t | InvalidDate \<Rightarrow> 0)"

section \<open>localStorage and JSON\<close>

text \<open>
  \<open>JSON.stringify\<close> and \<open>JSON.parse\<close> belong to the platform. The text under the key
  \<open>wateringReminders\<close> is modelled by what \<open>JSON.parse\<close> makes of it. An object the
  application writes has the three keys of \<open>Reminder\<close>, or a fourth key
  \<open>nextWateringDate\<close> when the serialised value was an element of the \<open>reminders\<close> state
  (a \<open>Date\<close> serialises through \<open>toJSON\<close>). The objects of a stored array are those with
  a string under \<open>plantName\<close> and a number or \<open>null\<close> under \<open>interval\<close> and
  \<open>startDate\<close>; objects that lack a key or hold a value of another type are not modelled.
\<close>

datatype stored_object = Plain Reminder | WithDate DerivedReminder

fun keys :: "stored_object \<Rightarrow> string list" where
  "keys (Plain r) = [''plantName'', ''interval'', ''startDate'']"
| "keys (WithDate r) = [''plantName'', ''interval'', ''startDate'', ''nextWateringDate'']"

text \<open>The \<open>Reminder\<close> fields of a parsed object, the only ones the load effect reads.\<close>

fun asReminder :: "stored_object \<Rightarrow> Reminder" where
  "asReminder (Plain r) = r"
| "asReminder (WithDate d) =
     \<lparr>plantName = plantName d, interval = interval d, startDate = startDate d\<rparr>"

text \<open>
  The stored text: the empty string; a text that \<open>JSON.parse\<close> rejects; a text that
  parses to something other than an array (\<open>null\<close>, an object, a number, a string, a
  boolean); an array of objects; or an array \<open>before @ [null] @ after\<close> whose first \<open>null\<close>
  entry follows the objects \<open>before\<close> (in \<open>after\<close>, \<open>None\<close> is a further \<open>null\<close>).
\<close>

datatype stored_text =
    EmptyText
  | Malformed
  | NotArray
  | Json "stored_object list"
  | JsonWithNull "stored_object list" "stored_object option list"

datatype js_error = SyntaxError | TypeError

text \<open>What \<open>JSON.parse\<close> returns: an array, with \<open>None\<close> for a \<open>null\<close> entry, or another value.\<close>

datatype parsed = ParsedArray "stored_object option list" | ParsedOther

fun JSON_parse :: "stored_text \<Rightarrow> js_error + parsed" where
  "JSON_parse EmptyText = Inl SyntaxError"
| "JSON_parse Malformed = Inl SyntaxError"
| "JSON_parse NotArray = Inr ParsedOther"
| "JSON_parse (Json objs) = Inr (ParsedArray (map Some objs))"
| "JSON_parse (JsonWithNull before after) = Inr (ParsedArray (map Some before @ None # after))"

text \<open>\<open>JSON.stringify\<close> of an array of objects: a number that is not finite is written as \<open>null\<close>.\<close>

fun toJSON_object :: "stored_object \<Rightarrow> stored_object" where
  "toJSON_object (Plain r) =
     Plain (r\<lparr>interval := toJSON (interval r), startDate := toJSON (startDate r)\<rparr>)"
| "toJSON_object (WithDate d) =
     WithDate (d\<lparr>interval := toJSON (interval d), startDate := toJSON (startDate d)\<rparr>)"

definition JSON_stringify :: "stored_object list \<Rightarrow> stored_text" where
  "JSON_stringify objs = Json (map toJSON_object objs)"

section \<open>App.tsx: the state of the component\<close>

type_synonym File = nat
type_synonym Chat = nat

datatype ui_error = NoImageSelected | AnalysisFailed | ServerFailed | SpeechFailed

datatype log_entry = ParseRemindersFailed | CaughtError

text \<open>
  The \<open>useState\<close> and \<open>useRef\<close> cells the handlers below read or write, and with them the
  three pieces of the environment the handlers act on: the value under the key
  \<open>wateringReminders\<close> of \<open>localStorage\<close> (\<open>None\<close> when the key is absent), the plant
  names of the alerts scheduled with \<open>setTimeout\<close>, and the entries \<open>console.error\<close> wrote.
  The state cell \<open>plantName\<close> is named \<open>identifiedPlant\<close> here, \<open>image\<close> is \<open>imageFile\<close>.
\<close>

record AppState =
  imageFile :: "File option"
  messages :: "ChatMessage list"
  userInput :: js_string
  isLoading :: bool
  error :: "ui_error option"
  identifiedPlant :: "js_string option"
  isReminderModalOpen :: bool
  reminders :: "DerivedReminder list"
  isListening :: bool
  chatSession :: "Chat option"
  localStorage :: "stored_text option"
  scheduledAlerts :: "js_string list"
  console :: "log_entry list"

text \<open>The state at mount, over a given content of \<open>localStorage\<close>.\<close>

definition initialState :: "stored_text option \<Rightarrow> AppState" where
  "initialState stored =
     \<lparr>imageFile = None, messages = [], userInput = [], isLoading = False, error = None,
      identifiedPlant = None, isReminderModalOpen = False, reminders = [], isListening = False,
      chatSession = None, localStorage = stored, scheduledAlerts = [], console = []\<rparr>"

text \<open>The objects of the array under the key, none when the key is absent or unreadable.\<close>

definition storedObjects :: "AppState \<Rightarrow> stored_object list" where
  "storedObjects s = (case localStorage s of Some (Json objs) \<Rightarrow> objs | _ \<Rightarrow> [])"

section \<open>App.tsx: the reminders load effect\<close>

text \<open>
  The body of the \<open>map\<close> callback, lines 140 to 155: the derived reminder and the plant
  names alerted for it (none or one). The readings of \<open>Date.now()\<close> within one run of the
  effect are taken to be one value \<open>now\<close>.
\<close>

definition deriveReminder :: "int \<Rightarrow> Reminder \<Rightarrow> DerivedReminder \<times> js_string list" where
  "deriveReminder now reminder =
     (let nextWateringDate = new_Date (nextWateringTimestamp now reminder);
          due = (js_ge (Num now) (js_sub (getTime nextWateringDate) (Num msInDay))
                 \<and> js_lt (Num now) (js_add (getTime nextWateringDate) (Num msInDay)))
      in (\<lparr>plantName = plantName reminder, interval = interval reminder,
            startDate = startDate reminder, nextWateringDate = nextWateringDate\<rparr>,
          if due then [plantName reminder] else []))"

text \<open>
  \<open>parsedReminders.map(...)\<close>, entry by entry: the alerts scheduled so far, and the derived
  list or the \<open>TypeError\<close> that reading \<open>reminder.interval\<close> of a \<open>null\<close> entry throws.
\<close>

fun mapReminders :: "int \<Rightarrow> stored_object option list \<Rightarrow> js_string list \<times> (js_error + DerivedReminder list)" where
  "mapReminders now [] = ([], Inr [])"
| "mapReminders now (None # rest) = ([], Inl TypeError)"
| "mapReminders now (Some obj # rest) =
     (let (derived, alert) = deriveReminder now (asReminder obj);
          (alerts, result) = mapReminders now rest
      in (alert @ alerts,
          case result of Inl e \<Rightarrow> Inl e | Inr remindersWithDates \<Rightarrow> Inr (derived # remindersWithDates)))"

text \<open>The \<open>catch\<close> block, lines 158 to 161.\<close>

definition discardStored :: "AppState \<Rightarrow> AppState" where
  "discardStored s = s\<lparr>localStorage := None, console := console s @ [ParseRemindersFailed]\<rparr>"

text \<open>
  Lines 135 to 163. A stored value that is \<open>null\<close> or the empty string is falsy. The \<open>try\<close>
  block holds the parse, the \<open>map\<close> and the \<open>sort\<close>: a value that is not an array has no
  \<open>map\<close> method, and the call throws as well.
\<close>

definition loadReminders :: "int \<Rightarrow> AppState \<Rightarrow> AppState" where
  "loadReminders now s =
     (case localStorage s of
        None \<Rightarrow> s
      | Some storedReminders \<Rightarrow>
          if storedReminders = EmptyText then s
          else (case JSON_parse storedReminders of
                  Inl e \<Rightarrow> discardStored s
                | Inr ParsedOther \<Rightarrow> discardStored s
                | Inr (ParsedArray parsedReminders) \<Rightarrow>
                    (case mapReminders now parsedReminders of
                       (alerts, Inl e) \<Rightarrow>
                         discardStored (s\<lparr>scheduledAlerts := scheduledAlerts s @ alerts\<rparr>)
                     | (alerts, Inr remindersWithDates) \<Rightarrow>
                         s\<lparr>reminders := js_sort byNextWateringDate remindersWithDates,
                           scheduledAlerts := scheduledAlerts s @ alerts\<rparr>)))"

text \<open>What the user sees after opening the application over a stored value.\<close>

definition load :: "int \<Rightarrow> stored_text option \<Rightarrow> AppState" where
  "load now stored = loadReminders now (initialState stored)"

section \<open>App.tsx: saving and deleting a reminder\<close>

text \<open>Line 256, the date the save path shows for the reminder it has just built.\<close>

definition savedNextWateringDate :: "Reminder \<Rightarrow> Date" where
  "savedNextWateringDate newReminder =
     new_Date (js_add (toNumber (startDate newReminder))
                 (js_mul (toNumber (interval newReminder)) (Num msInDay)))"

text \<open>
  Lines 242 to 264, at the reading \<open>now\<close> of \<open>Date.now()\<close>; \<open>!plantName\<close> holds for
  \<open>null\<close> and for the empty string.
\<close>

definition handleSaveReminder :: "int \<Rightarrow> jsnum \<Rightarrow> AppState \<Rightarrow> AppState" where
  "handleSaveReminder now intervalDays s =
     (case identifiedPlant s of
        None \<Rightarrow> s
      | Some name \<Rightarrow>
          if name = [] then s
          else
            (let newReminder = \<lparr>plantName = name, interval = Number intervalDays,
                                startDate = Number (Num now)\<rparr>;
                 kept = filter (\<lambda>r. plantName r \<noteq> name) (reminders s);
                 updatedReminders = map WithDate kept @ [Plain newReminder];
                 nextWateringDate = savedNextWateringDate newReminder;
                 newList = kept @ [\<lparr>plantName = name, interval = Number intervalDays,
                                    startDate = Number (Num now),
                                    nextWateringDate = nextWateringDate\<rparr>]
             in s\<lparr>localStorage := Some (JSON_stringify updatedReminders),
                  reminders := js_sort byNextWateringDate newList,
                  isReminderModalOpen := False\<rparr>))"

text \<open>Lines 266 to 270.\<close>

definition handleDeleteReminder :: "js_string \<Rightarrow> AppState \<Rightarrow> AppState" where
  "handleDeleteReminder plantNameToDelete s =
     (let updatedReminders = filter (\<lambda>r. plantName r \<noteq> plantNameToDelete) (reminders s)
      in s\<lparr>localStorage := Some (JSON_stringify (map WithDate updatedReminders)),
           reminders := updatedReminders\<rparr>)"

text \<open>
  Two invariants of the reminder store, over the \<open>reminders\<close> state and the stored array
  alike: every interval is a whole number of at least one day, and no plant name occurs
  twice.
\<close>

definition validInterval :: "jsval \<Rightarrow> bool" where
  "validInterval v = (case v of Number (Num n) \<Rightarrow> 1 \<le> n | _ \<Rightarrow> False)"

definition validIntervals :: "AppState \<Rightarrow> bool" where
  "validIntervals s \<longleftrightarrow>
     (\<forall>r\<in>set (reminders s). validInterval (interval r))
     \<and> (\<forall>obj\<in>set (storedObjects s). validInterval (interval (asReminder obj)))"

definition uniqueNames :: "AppState \<Rightarrow> bool" where
  "uniqueNames s \<longleftrightarrow>
     distinct (map plantName (reminders s))
     \<and> distinct (map (\<lambda>obj. plantName (asReminder obj)) (storedObjects s))"

section \<open>ReminderModal\<close>

text \<open>
  The characters that \<open>parseInt\<close> and \<open>trim\<close> strip and that \<open>\s\<close> matches: white space
  and line terminators.
\<close>

definition isWhiteSpace :: "nat \<Rightarrow> bool" where
  "isWhiteSpace c \<longleftrightarrow>
     c = 9 \<or> c = 10 \<or> c = 11 \<or> c = 12 \<or> c = 13 \<or> c = 32 \<or> c = 160 \<or> c = 5760
     \<or> (8192 \<le> c \<and> c \<le> 8202) \<or> c = 8232 \<or> c = 8233 \<or> c = 8239 \<or> c = 8287
     \<or> c = 12288 \<or> c = 65279"

definition isDigit :: "nat \<Rightarrow> bool" where
  "isDigit c \<longleftrightarrow> 48 \<le> c \<and> c \<le> 57"

definition digitsValue :: "js_string \<Rightarrow> int" where
  "digitsValue ds = foldl (\<lambda>acc c. 10 * acc + (int c - 48)) 0 ds"

text \<open>
  \<open>parseInt(value, 10)\<close>: leading white space is skipped, a sign is read, then the longest
  run of decimal digits. Without a digit the result is \<open>NaN\<close>; otherwise it is the double
  nearest to the value of the digits, an infinity from about 1.8e308 on. (Past the 20th
  digit an implementation may read the digits as zeros; the result then differs by less
  than one part in 1e19 and is finite or infinite as here for the inputs considered below.)
\<close>

definition parseInt :: "js_string \<Rightarrow> jsnum" where
  "parseInt v =
     (let t = dropWhile isWhiteSpace v;
          negative = (t \<noteq> [] \<and> hd t = 45);
          u = (if t \<noteq> [] \<and> (hd t = 45 \<or> hd t = 43) then tl t else t);
          ds = takeWhile isDigit u
      in if ds = [] then NaN
         else if negative then js_neg (js_of_int (digitsValue ds))
         else js_of_int (digitsValue ds))"

text \<open>Line 37: the interval the modal opens with.\<close>

definition ReminderModal_initialInterval :: jsnum where
  "ReminderModal_initialInterval = Num 7"

text \<open>Line 54: \<open>parseInt(e.target.value, 10) || 1\<close>; \<open>NaN\<close> and \<open>0\<close> are falsy.\<close>

definition ReminderModal_onChange :: "js_string \<Rightarrow> jsnum" where
  "ReminderModal_onChange v =
     (let n = parseInt v in if n = NaN \<or> n = Num 0 then Num 1 else n)"

text \<open>Lines 39 to 43: \<open>onSave\<close> is called only when \<open>interval > 0\<close>.\<close>

definition ReminderModal_handleSave :: "jsnum \<Rightarrow> (jsnum \<Rightarrow> 's \<Rightarrow> 's) \<Rightarrow> 's \<Rightarrow> 's" where
  "ReminderModal_handleSave intervalDays onSave s =
     (if js_lt (Num 0) intervalDays then onSave intervalDays s else s)"

text \<open>
  Line 328: the modal is rendered with \<open>onSave = handleSaveReminder\<close>. This is the effect
  of pressing its save button at time \<open>now\<close> when its interval state is \<open>intervalDays\<close>.
\<close>

definition saveFromModal :: "int \<Rightarrow> jsnum \<Rightarrow> AppState \<Rightarrow> AppState" where
  "saveFromModal now intervalDays s = ReminderModal_handleSave intervalDays (handleSaveReminder now) s"

section \<open>App.tsx: the conversation\<close>

text \<open>How an awaited call to the model service ends.\<close>

datatype 'a settled = Rejected | Fulfilled 'a

definition trim :: "js_string \<Rightarrow> js_string" where
  "trim s = rev (dropWhile isWhiteSpace (rev (dropWhile isWhiteSpace s)))"

text \<open>
  Lines 211 to 240. \<open>created\<close> is the handle \<open>createChatSession()\<close> returns if it is
  called, \<open>response\<close> the outcome of \<open>sendMessageToChat\<close>.
\<close>

definition handleSendMessage :: "Chat \<Rightarrow> js_string settled \<Rightarrow> AppState \<Rightarrow> AppState" where
  "handleSendMessage created response s =
     (if trim (userInput s) = [] \<or> isLoading s then s
      else
        (let s1 = (if isListening s then s\<lparr>isListening := False\<rparr> else s);
             userMessage = \<lparr>role = User, msgText = userInput s\<rparr>;
             s2 = s1\<lparr>messages := messages s1 @ [userMessage], userInput := [],
                     isLoading := True, error := None\<rparr>;
             s3 = (if chatSession s2 = None then s2\<lparr>chatSession := Some created\<rparr> else s2);
             s4 = (case response of
                     Fulfilled modelResponse \<Rightarrow>
                       s3\<lparr>messages := messages s3 @ [\<lparr>role = Model, msgText = modelResponse\<rparr>]\<rparr>
                   | Rejected \<Rightarrow>
                       s3\<lparr>console := console s3 @ [CaughtError], error := Some ServerFailed,
                          messages := butlast (messages s3)\<rparr>)
         in s4\<lparr>isLoading := False\<rparr>))"

section \<open>App.tsx: identifying a plant\<close>

text \<open>
  The regular expression of line 196 is the literal \<open>**\<close>, the two Persian words for
  "plant name", a colon and \<open>**\<close>, followed by \<open>\s*(.*?)\s*(\/|\n)\<close>. The literal, in
  UTF-16 code units:
\<close>

definition nameLabel :: js_string where
  "nameLabel = [42, 42, 1606, 1575, 1605, 32, 1711, 1740, 1575, 1607, 58, 42, 42]"

definition isLineTerminator :: "nat \<Rightarrow> bool" where
  "isLineTerminator c \<longleftrightarrow> c = 10 \<or> c = 13 \<or> c = 8232 \<or> c = 8233"

definition isSeparator :: "nat \<Rightarrow> bool" where
  "isSeparator c \<longleftrightarrow> c = 47 \<or> c = 10"

text \<open>
  The matcher backtracks in the order of the engine. \<open>\s*(\/|\n)\<close>: the greedy star takes
  a white-space character if the rest then matches, and otherwise stops.
\<close>

fun matchSpacesSeparator :: "js_string \<Rightarrow> bool" where
  "matchSpacesSeparator [] = False"
| "matchSpacesSeparator (c # cs) = ((isWhiteSpace c \<and> matchSpacesSeparator cs) \<or> isSeparator c)"

text \<open>
  \<open>(.*?)\s*(\/|\n)\<close>: the lazy star first tries to stop, and takes one more character,
  other than a line terminator, only when the rest does not match. The result is group 1.
\<close>

fun matchName :: "js_string \<Rightarrow> js_string option" where
  "matchName [] = None"
| "matchName (c # cs) =
     (if matchSpacesSeparator (c # cs) then Some []
      else if isLineTerminator c then None
      else map_option (\<lambda>g. c # g) (matchName cs))"

text \<open>\<open>\s*(.*?)\s*(\/|\n)\<close>, what follows the literal.\<close>

fun matchAfterLabel :: "js_string \<Rightarrow> js_string option" where
  "matchAfterLabel [] = None"
| "matchAfterLabel (c # cs) =
     (if isWhiteSpace c
      then (case matchAfterLabel cs of Some g \<Rightarrow> Some g | None \<Rightarrow> matchName (c # cs))
      else matchName (c # cs))"

definition matchHere :: "js_string \<Rightarrow> js_string option" where
  "matchHere s =
     (if take (length nameLabel) s = nameLabel then matchAfterLabel (drop (length nameLabel) s)
      else None)"

text \<open>
  \<open>modelResponse.match(...)\<close>: the match at the first position that has one; the result
  is \<open>nameMatch[1]\<close>, or \<open>None\<close> when \<open>nameMatch\<close> is \<open>null\<close>.
\<close>

fun nameMatch :: "js_string \<Rightarrow> js_string option" where
  "nameMatch [] = None"
| "nameMatch (c # cs) =
     (case matchHere (c # cs) of Some g \<Rightarrow> Some g | None \<Rightarrow> nameMatch cs)"

text \<open>
  Lines 178 to 209. \<open>response\<close> is the outcome of encoding the image and calling
  \<open>analyzePlantImage\<close>, \<open>created\<close> the handle of the \<open>createChatSession()\<close> at line 201.
\<close>

definition handleAnalyzeClick :: "Chat \<Rightarrow> js_string settled \<Rightarrow> AppState \<Rightarrow> AppState" where
  "handleAnalyzeClick created response s =
     (case imageFile s of
        None \<Rightarrow> s\<lparr>error := Some NoImageSelected\<rparr>
      | Some file \<Rightarrow>
          (let s1 = s\<lparr>isLoading := True, error := None, messages := [], identifiedPlant := None\<rparr>;
               s2 = (case response of
                       Fulfilled modelResponse \<Rightarrow>
                         (let s3 = s1\<lparr>messages := [\<lparr>role = Model, msgText = modelResponse\<rparr>]\<rparr>;
                              s4 = (case nameMatch modelResponse of
                                      None \<Rightarrow> s3
                                    | Some g \<Rightarrow>
                                        if g \<noteq> [] then s3\<lparr>identifiedPlant := Some (trim g)\<rparr>
                                        else s3)
                          in s4\<lparr>chatSession := Some created\<rparr>)
                     | Rejected \<Rightarrow>
                         s1\<lparr>console := console s1 @ [CaughtError], error := Some AnalysisFailed\<rparr>)
           in s2\<lparr>isLoading := False\<rparr>))"

section \<open>The specification's words for the identification reply\<close>

text \<open>The example line of the specification: the label, then \<open>Monstera / Monstera deliciosa\<close>.\<close>

definition monsteraLine :: js_string where
  "monsteraLine = nameLabel @ ascii '' Monstera / Monstera deliciosa''"

text \<open>
  "The bolded name field followed by a slash or newline separator": the label occurs in the
  reply, and a slash or a newline occurs somewhere after it.
\<close>

definition nameFieldPresent :: "js_string \<Rightarrow> bool" where
  "nameFieldPresent reply \<longleftrightarrow>
     (\<exists>before rest. reply = before @ nameLabel @ rest \<and> (\<exists>c\<in>set rest. c = 47 \<or> c = 10))"

section \<open>Predicates used to state the properties\<close>

text \<open>A number that is at least \<open>c\<close>, \<open>Infinity\<close> included.\<close>

definition numAtLeast :: "int \<Rightarrow> jsnum \<Rightarrow> bool" where
  "numAtLeast c x = (case x of Num r \<Rightarrow> c \<le> r | PosInf \<Rightarrow> True | _ \<Rightarrow> False)"

text \<open>
  A reminder as the data model describes it, seen at \<open>now\<close>: a whole interval of at least
  one day, a start date between the epoch and \<open>now\<close>, and a next watering date, by the
  formula of the specification, within the range of \<open>Date\<close>.
\<close>

definition withinDateRange :: "int \<Rightarrow> 'a Reminder_scheme \<Rightarrow> bool" where
  "withinDateRange now r =
     (case (interval r, startDate r) of
        (Number (Num i), Number (Num s)) \<Rightarrow>
          1 \<le> i \<and> 0 \<le> s \<and> s \<le> now
          \<and> s + ((now - s) div (i * 86400000) + 1) * (i * 86400000) \<le> 8640000000000000
      | _ \<Rightarrow> False)"

text \<open>The stored array holds the plant names of the \<open>reminders\<close> state, each as often.\<close>

definition storeMatchesList :: "AppState \<Rightarrow> bool" where
  "storeMatchesList s \<longleftrightarrow>
     mset (map (\<lambda>obj. plantName (asReminder obj)) (storedObjects s))
       = mset (map plantName (reminders s))"

section \<open>Properties of rounding\<close>

lemma scaleUp_lower:
  "0 < a \<Longrightarrow> 0 < b \<Longrightarrow> 4503599627370496 * b \<le> a * 2 ^ scaleUp a b"
proof (induction a b rule: scaleUp.induct)
  case (1 a b)
  show ?case
  proof (cases "4503599627370496 * b \<le> a")
    case True
    then show ?thesis by (simp add: scaleUp.simps)
  next
    case False
    then have s: "scaleUp a b = Suc (scaleUp (2 * a) b)"
      using "1.prems" by (simp add: scaleUp.simps)
    have "4503599627370496 * b \<le> (2 * a) * 2 ^ scaleUp (2 * a) b"
      using "1.IH" "1.prems" False by simp
    then show ?thesis by (simp add: s mult_ac)
  qed
qed

lemma scaleDown_props:
  "0 < b \<Longrightarrow> 9007199254740992 * b \<le> a \<Longrightarrow>
   1 \<le> scaleDown a b \<and> 4503599627370496 * (b * 2 ^ scaleDown a b) \<le> a"
proof (induction a b rule: scaleDown.induct)
  case (1 a b)
  have s: "scaleDown a b = Suc (scaleDown a (2 * b))"
    using "1.prems" by (simp add: scaleDown.simps)
  show ?case
  proof (cases "a < 9007199254740992 * (2 * b)")
    case True
    then have "scaleDown a (2 * b) = 0" by (simp add: scaleDown.simps)
    then show ?thesis using "1.prems" by (simp add: s)
  next
    case False
    then have "4503599627370496 * ((2 * b) * 2 ^ scaleDown a (2 * b)) \<le> a"
      using "1.IH" "1.prems" by simp
    then show ?thesis by (simp add: s mult_ac)
  qed
qed

lemma rne_div_lower: "0 < d \<Longrightarrow> n div d \<le> rne_div n d"
  by (simp add: rne_div_def Let_def)

lemma div_less_bound:
  fixes d :: int
  assumes "0 < d" and "y < K * d"
  shows "y div d < K"
proof -
  have "y div d * d + y mod d = y" by simp
  moreover have "0 \<le> y mod d" using assms(1) by simp
  ultimately have "y div d * d < K * d" using assms(2) by linarith
  then show ?thesis using assms(1) by (simp add: mult_less_cancel_right)
qed

lemma div_ge_bound:
  fixes d :: int
  assumes "0 < d" and "K * d \<le> y"
  shows "K \<le> y div d"
proof -
  have "y div d * d + y mod d = y" by simp
  moreover have "y mod d < d" using assms(1) by simp
  ultimately have "K * d < y div d * d + d" using assms(2) by linarith
  then have "K * d < (y div d + 1) * d" by (simp add: algebra_simps)
  then have "K < y div d + 1" using assms(1) by (simp add: mult_less_cancel_right)
  then show ?thesis by simp
qed

lemma rne_div_less:
  assumes "0 < d" and "y < K * d" and "d < 2 * (K * d - y)"
  shows "rne_div y d < K"
proof -
  let ?q = "y div d" and ?r = "y mod d"
  have y: "y = ?q * d + ?r" by simp
  have r: "0 \<le> ?r" "?r < d" using assms(1) by simp_all
  have qK: "?q < K"
    using assms(1,2) by (rule div_less_bound)
  show ?thesis
  proof (cases "?q + 1 < K")
    case True
    then show ?thesis by (simp add: rne_div_def Let_def)
  next
    case False
    with qK have K: "K = ?q + 1" by simp
    have "K * d - y = d - ?r"
      by (metis K add_diff_cancel_left' diff_diff_eq distrib_right mult_1 y ab_semigroup_add_class.add.commute)
    with assms(3) have "2 * ?r < d" by simp
    then show ?thesis by (simp add: rne_div_def Let_def K)
  qed
qed

lemma floorOfQuotient_exact:
  assumes "0 \<le> a" and "a < 9007199254740992" and "0 < b"
  shows "floorOfQuotient a b = a div b"
proof (cases "a = 0")
  case True
  then show ?thesis
    using assms(3) by (simp add: floorOfQuotient_def scaleUp.simps rne_div_def)
next
  case False
  with assms(1) have a: "0 < a" by simp
  define s where "s = scaleUp a b"
  define n where "n = a div b"
  define M where "M = rne_div (a * 2 ^ s) b"
  have p: "(0::int) < 2 ^ s" by simp
  have br: "a < 9007199254740992 * b"
  proof -
    have "9007199254740992 * 1 \<le> 9007199254740992 * b"
      using assms(3) by (intro mult_left_mono) simp_all
    with assms(2) show ?thesis by linarith
  qed
  have f: "floorOfQuotient a b = M div 2 ^ s"
    using a br by (simp add: floorOfQuotient_def Let_def s_def M_def)
  have low: "4503599627370496 * b \<le> a * 2 ^ s"
    unfolding s_def using a assms(3) by (rule scaleUp_lower)
  have nb: "n * b \<le> a" and an: "a < (n + 1) * b"
  proof -
    have "a div b * b + a mod b = a" by simp
    moreover have "0 \<le> a mod b" "a mod b < b" using assms(3) by simp_all
    ultimately have "a div b * b \<le> a" "a < a div b * b + b" by linarith+
    then show "n * b \<le> a" "a < (n + 1) * b"
      unfolding n_def by (simp_all add: algebra_simps)
  qed
  have "(n * 2 ^ s) * b \<le> a * 2 ^ s"
    using nb p by (simp add: mult.assoc mult.left_commute [of "2 ^ s"] mult_left_mono mult.commute)
  then have "n * 2 ^ s \<le> (a * 2 ^ s) div b"
    using assms(3) by (intro div_ge_bound)
  also have "\<dots> \<le> M"
    unfolding M_def using assms(3) by (rule rne_div_lower)
  finally have "n * 2 ^ s \<le> M" .
  then have lower: "n \<le> M div 2 ^ s"
    using p by (intro div_ge_bound)
  have gap: "2 ^ s \<le> ((n + 1) * 2 ^ s) * b - a * 2 ^ s"
  proof -
    have "1 \<le> (n + 1) * b - a" using an by simp
    then have "2 ^ s * 1 \<le> 2 ^ s * ((n + 1) * b - a)"
      using p by (intro mult_left_mono) simp_all
    then show ?thesis by (simp add: algebra_simps)
  qed
  have "a * 2 ^ s < 9007199254740992 * 2 ^ s"
    using assms(2) p by (intro mult_strict_right_mono)
  with low have bs: "b < 2 * 2 ^ s" by linarith
  have "M < (n + 1) * 2 ^ s"
    unfolding M_def
  proof (rule rne_div_less)
    show "0 < b" by (rule assms(3))
    show "a * 2 ^ s < (n + 1) * 2 ^ s * b"
      using an p by (simp add: mult.assoc mult.left_commute [of "2 ^ s"] mult_strict_right_mono mult.commute)
    define D where "D = (n + 1) * 2 ^ s * b - a * 2 ^ s"
    have "2 ^ s \<le> D" using gap by (simp add: D_def)
    with bs have "b < 2 * D" by linarith
    then show "b < 2 * ((n + 1) * 2 ^ s * b - a * 2 ^ s)" by (simp add: D_def)
  qed
  then have upper: "M div 2 ^ s < n + 1"
    using p by (intro div_less_bound)
  from lower upper show ?thesis by (simp add: f n_def)
qed

lemma js_round_big:
  assumes "9007199254740992 \<le> \<bar>n\<bar>"
  shows "\<exists>r\<ge>9007199254740992. js_round n = sgn n * r"
proof -
  define k where "k = scaleDown \<bar>n\<bar> 1"
  define M where "M = rne_div \<bar>n\<bar> (2 ^ k)"
  have p: "(0::int) < 2 ^ k" by simp
  have f: "js_round n = sgn n * (M * 2 ^ k)"
    using assms by (simp add: js_round_def floorOfQuotient_def Let_def k_def M_def)
  have pr: "1 \<le> k" "4503599627370496 * 2 ^ k \<le> \<bar>n\<bar>"
    using scaleDown_props [of 1 "\<bar>n\<bar>"] assms by (simp_all add: k_def)
  have "4503599627370496 \<le> \<bar>n\<bar> div 2 ^ k"
    using p pr(2) by (intro div_ge_bound)
  also have "\<dots> \<le> M" unfolding M_def using p by (rule rne_div_lower)
  finally have M: "4503599627370496 \<le> M" .
  have "(2::int) ^ 1 \<le> 2 ^ k" using pr(1) by (intro power_increasing) simp_all
  then have "(2::int) \<le> 2 ^ k" by simp
  with M have "4503599627370496 * 2 \<le> M * 2 ^ k"
    by (intro mult_mono) simp_all
  then show ?thesis using f by auto
qed

lemma js_of_int_exact: "\<bar>n\<bar> \<le> 9007199254740992 \<Longrightarrow> js_of_int n = Num n"
  by (simp add: js_of_int_def)

lemma js_of_int_big:
  assumes "9007199254740992 \<le> n"
  shows "js_of_int n = PosInf \<or> (\<exists>r\<ge>9007199254740992. js_of_int n = Num r)"
proof (cases "n = 9007199254740992")
  case True
  then show ?thesis by (simp add: js_of_int_def)
next
  case False
  with assms have b: "9007199254740992 \<le> \<bar>n\<bar>" "0 < n" "\<not> \<bar>n\<bar> \<le> 9007199254740992" by simp_all
  from js_round_big [OF b(1)] obtain r where "9007199254740992 \<le> r" "js_round n = r"
    using b(2) by auto
  then show ?thesis using b by (auto simp: js_of_int_def)
qed

lemma js_of_int_big_neg:
  assumes "n \<le> - 9007199254740992"
  shows "js_of_int n = NegInf \<or> (\<exists>r\<le>- 9007199254740992. js_of_int n = Num r)"
proof (cases "n = - 9007199254740992")
  case True
  then show ?thesis by (simp add: js_of_int_def)
next
  case False
  with assms have b: "9007199254740992 \<le> \<bar>n\<bar>" "n < 0" "\<not> \<bar>n\<bar> \<le> 9007199254740992" by simp_all
  from js_round_big [OF b(1)] obtain r where "9007199254740992 \<le> r" "js_round n = - r"
    using b(2) by auto
  then show ?thesis using b by (auto simp: js_of_int_def)
qed

lemma js_lt_zero_of_int: "js_lt (Num 0) (js_of_int n) = (0 < n)"
proof -
  consider "\<bar>n\<bar> \<le> 9007199254740992" | "9007199254740992 \<le> n" | "n \<le> - 9007199254740992"
    by linarith
  then show ?thesis
  proof cases
    case 1
    then show ?thesis by (simp add: js_of_int_exact)
  next
    case 2
    with js_of_int_big [OF 2] show ?thesis by auto
  next
    case 3
    with js_of_int_big_neg [OF 3] show ?thesis by auto
  qed
qed

section \<open>Properties of the sort\<close>

lemma mset_js_insert: "mset (js_insert cmp x ys) = add_mset x (mset ys)"
  by (induction ys) auto

lemma mset_js_sort: "mset (js_sort cmp xs) = mset xs"
  by (induction xs) (auto simp: js_sort_def mset_js_insert)

lemma set_js_sort: "set (js_sort cmp xs) = set xs"
  using mset_js_sort [of cmp xs] by (metis set_mset_mset)

lemma length_js_sort: "length (js_sort cmp xs) = length xs"
  using mset_js_sort [of cmp xs] by (metis size_mset)

lemma filter_js_sort_length: "length (filter P (js_sort cmp xs)) = length (filter P xs)"
proof -
  have "mset (filter P (js_sort cmp xs)) = mset (filter P xs)"
    by (simp add: mset_js_sort)
  then show ?thesis by (metis size_mset)
qed

lemma distinct_map_js_sort: "distinct (map f (js_sort cmp xs)) = distinct (map f xs)"
proof -
  have "mset (map f (js_sort cmp xs)) = mset (map f xs)"
    by (simp add: mset_js_sort)
  then show ?thesis by (rule mset_eq_imp_distinct_iff)
qed

lemma byNextWateringDate_valid:
  "nextWateringDate a = Date ta \<Longrightarrow> nextWateringDate b = Date tb \<Longrightarrow>
   js_lt (Num 0) (byNextWateringDate a b) = (tb < ta)"
  by (simp add: byNextWateringDate_def js_sub_def js_lt_zero_of_int)

lemma js_insert_insort:
  assumes "nextWateringDate x \<noteq> InvalidDate" and "\<forall>y\<in>set ys. nextWateringDate y \<noteq> InvalidDate"
  shows "js_insert byNextWateringDate x ys = insort_key (\<lambda>r. dateValue (nextWateringDate r)) x ys"
  using assms
proof (induction ys)
  case Nil
  then show ?case by simp
next
  case (Cons y ys)
  obtain tx ty where "nextWateringDate x = Date tx" "nextWateringDate y = Date ty"
    using Cons.prems by (metis Date.exhaust list.set_intros(1))
  with Cons show ?case
    by (auto simp: byNextWateringDate_valid dateValue_def)
qed

lemma js_sort_sort_key:
  assumes "\<forall>y\<in>set xs. nextWateringDate y \<noteq> InvalidDate"
  shows "js_sort byNextWateringDate xs = sort_key (\<lambda>r. dateValue (nextWateringDate r)) xs"
  using assms
proof (induction xs)
  case Nil
  then show ?case by (simp add: js_sort_def)
next
  case (Cons x xs)
  then have ih: "js_sort byNextWateringDate xs = sort_key (\<lambda>r. dateValue (nextWateringDate r)) xs"
    by simp
  have "js_sort byNextWateringDate (x # xs) = js_insert byNextWateringDate x (js_sort byNextWateringDate xs)"
    by (simp add: js_sort_def)
  also have "\<dots> = insort_key (\<lambda>r. dateValue (nextWateringDate r)) x (js_sort byNextWateringDate xs)"
    using Cons.prems by (intro js_insert_insort) (auto simp: set_js_sort)
  finally show ?case by (simp add: ih)
qed

lemma js_sort_ascending:
  assumes "\<forall>y\<in>set xs. nextWateringDate y \<noteq> InvalidDate"
  shows "sorted_wrt (\<lambda>a b. js_ge (getTime (nextWateringDate b)) (getTime (nextWateringDate a)))
           (js_sort byNextWateringDate xs)"
proof -
  let ?k = "\<lambda>r. dateValue (nextWateringDate r)"
  let ?ys = "js_sort byNextWateringDate xs"
  have "sorted (map ?k ?ys)"
    by (simp add: js_sort_sort_key [OF assms])
  then have s: "sorted_wrt (\<lambda>a b. ?k a \<le> ?k b) ?ys"
    by (simp add: sorted_map)
  have v: "\<forall>y\<in>set ?ys. nextWateringDate y \<noteq> InvalidDate"
    using assms by (simp add: set_js_sort)
  show ?thesis
  proof (rule sorted_wrt_mono_rel [OF _ s])
    fix a b assume "a \<in> set ?ys" "b \<in> set ?ys" "?k a \<le> ?k b"
    moreover obtain ta tb where "nextWateringDate a = Date ta" "nextWateringDate b = Date tb"
      using v \<open>a \<in> set ?ys\<close> \<open>b \<in> set ?ys\<close> by (metis Date.exhaust)
    ultimately show "js_ge (getTime (nextWateringDate b)) (getTime (nextWateringDate a))"
      by (simp add: dateValue_def)
  qed
qed

section \<open>Properties of the load effect\<close>

lemma deriveReminder_fields [simp]:
  "plantName (fst (deriveReminder now r)) = plantName r"
  "interval (fst (deriveReminder now r)) = interval r"
  "startDate (fst (deriveReminder now r)) = startDate r"
  "nextWateringDate (fst (deriveReminder now r)) = new_Date (nextWateringTimestamp now r)"
  by (simp_all add: deriveReminder_def Let_def)

lemma new_Date_cases:
  "new_Date x = InvalidDate \<or> (\<exists>t. new_Date x = Date t \<and> \<bar>t\<bar> \<le> 8640000000000000)"
  by (cases x) auto

lemma deriveReminder_alert:
  "snd (deriveReminder now r) =
     (if (case nextWateringDate (fst (deriveReminder now r)) of
            Date t \<Rightarrow> t - 86400000 \<le> now \<and> now < t + 86400000
          | InvalidDate \<Rightarrow> False)
      then [plantName (fst (deriveReminder now r))] else [])"
proof -
  from new_Date_cases [of "nextWateringTimestamp now r"] show ?thesis
  proof
    assume "new_Date (nextWateringTimestamp now r) = InvalidDate"
    then show ?thesis by (simp add: deriveReminder_def Let_def js_sub_def)
  next
    assume "\<exists>t. new_Date (nextWateringTimestamp now r) = Date t \<and> \<bar>t\<bar> \<le> 8640000000000000"
    then obtain t where t: "new_Date (nextWateringTimestamp now r) = Date t"
      "\<bar>t\<bar> \<le> 8640000000000000" by blast
    then have "js_of_int (t - 86400000) = Num (t - 86400000)"
      "js_of_int (t + 86400000) = Num (t + 86400000)"
      by (simp_all add: js_of_int_exact)
    with t show ?thesis
      by (auto simp: deriveReminder_def Let_def js_sub_def msInDay_def)
  qed
qed

lemma mapReminders_objects:
  "mapReminders now (map Some objs) =
     (concat (map (\<lambda>obj. snd (deriveReminder now (asReminder obj))) objs),
      Inr (map (\<lambda>obj. fst (deriveReminder now (asReminder obj))) objs))"
  by (induction objs) (simp_all add: case_prod_beta)

lemma mapReminders_null:
  "mapReminders now (map Some before @ None # after) =
     (concat (map (\<lambda>obj. snd (deriveReminder now (asReminder obj))) before), Inl TypeError)"
  by (induction before) (simp_all add: case_prod_beta)

lemma load_Json:
  "load now (Some (Json objs)) =
     (initialState (Some (Json objs)))
       \<lparr>reminders := js_sort byNextWateringDate (map (\<lambda>obj. fst (deriveReminder now (asReminder obj))) objs),
        scheduledAlerts := concat (map (\<lambda>obj. snd (deriveReminder now (asReminder obj))) objs)\<rparr>"
  by (simp add: load_def loadReminders_def initialState_def mapReminders_objects)

lemma concat_map_if:
  "concat (map (\<lambda>x. if P x then [f x] else []) xs) = map f (filter P xs)"
  by (induction xs) auto

text \<open>
  C7. On a load, the alerts scheduled are the plant names of exactly those derived reminders
  for which \<open>now\<close> lies in the window from one day before the next watering date
  (inclusive) to one day after it (exclusive), one alert for each such reminder and none
  for any other; the derived reminders are those of the \<open>reminders\<close> state. A load that
  finds no stored array schedules no alert.
\<close>

theorem C7_alert_iff_within_a_day:
  "scheduledAlerts (load now (Some (Json objs))) =
     map plantName
       (filter (\<lambda>d. case nextWateringDate d of
                       Date t \<Rightarrow> t - 86400000 \<le> now \<and> now < t + 86400000
                     | InvalidDate \<Rightarrow> False)
          (map (\<lambda>obj. fst (deriveReminder now (asReminder obj))) objs))
   \<and> mset (reminders (load now (Some (Json objs))))
       = mset (map (\<lambda>obj. fst (deriveReminder now (asReminder obj))) objs)
   \<and> length (scheduledAlerts (load now (Some (Json objs)))) \<le> length objs
   \<and> scheduledAlerts (load now None) = []
   \<and> scheduledAlerts (load now (Some EmptyText)) = []
   \<and> scheduledAlerts (load now (Some Malformed)) = []"
proof -
  let ?P = "\<lambda>d. case nextWateringDate d of
                       Date t \<Rightarrow> t - 86400000 \<le> now \<and> now < t + 86400000
                     | InvalidDate \<Rightarrow> False"
  let ?ds = "map (\<lambda>obj. fst (deriveReminder now (asReminder obj))) objs"
  have "concat (map (\<lambda>obj. snd (deriveReminder now (asReminder obj))) objs)
        = concat (map (\<lambda>d. if ?P d then [plantName d] else []) ?ds)"
    by (simp add: comp_def deriveReminder_alert [symmetric] del: deriveReminder_fields)
  also have "\<dots> = map plantName (filter ?P ?ds)"
    by (rule concat_map_if)
  finally have a: "scheduledAlerts (load now (Some (Json objs))) = map plantName (filter ?P ?ds)"
    by (simp add: load_Json)
  have b: "mset (reminders (load now (Some (Json objs)))) = mset ?ds"
    by (simp add: load_Json mset_js_sort)
  have "length (filter ?P ?ds) \<le> length ?ds"
    by (rule length_filter_le)
  then have c: "length (scheduledAlerts (load now (Some (Json objs)))) \<le> length objs"
    using a by simp
  have d: "scheduledAlerts (load now None) = []"
    "scheduledAlerts (load now (Some EmptyText)) = []"
    "scheduledAlerts (load now (Some Malformed)) = []"
    by (simp_all add: load_def loadReminders_def initialState_def discardStored_def)
  from a b c d show ?thesis by blast
qed

lemmas eval_defs = load_def loadReminders_def initialState_def deriveReminder_def
  nextWateringTimestamp_def js_sub_def msInDay_def Let_def js_sort_def byNextWateringDate_def
  ascii_def inf_of_sign_def handleSaveReminder_def handleDeleteReminder_def
  savedNextWateringDate_def JSON_stringify_def storedObjects_def discardStored_def
  js_of_int_exact floorOfQuotient_exact

theorem C7_alert_iff_within_a_day_witness:
  "scheduledAlerts (load 1700000000000 (Some (Json
      [Plain \<lparr>plantName = ascii ''Fern'', interval = Number (Num 7),
              startDate = Number (Num (1700000000000 - 3 * 86400000))\<rparr>,
       Plain \<lparr>plantName = ascii ''Rose'', interval = Number (Num 2),
              startDate = Number (Num (1700000000000 - 3 * 86400000 - 1))\<rparr>])))
   = [ascii ''Rose'']"
  using C7_alert_iff_within_a_day [of 1700000000000
      "[Plain \<lparr>plantName = ascii ''Fern'', interval = Number (Num 7),
              startDate = Number (Num (1700000000000 - 3 * 86400000))\<rparr>,
       Plain \<lparr>plantName = ascii ''Rose'', interval = Number (Num 2),
              startDate = Number (Num (1700000000000 - 3 * 86400000 - 1))\<rparr>]"]
  by (simp add: eval_defs)

section \<open>Properties of the derived date\<close>

lemma nextWateringTimestamp_exact:
  assumes i: "interval r = Number (Num i)" and s: "startDate r = Number (Num s)"
    and "1 \<le> i" and "0 \<le> s" and "s \<le> now"
    and t: "t = s + ((now - s) div (i * 86400000) + 1) * (i * 86400000)"
    and "t \<le> 8640000000000000"
  shows "nextWateringTimestamp now r = Num t" and "now < t"
proof -
  define b where "b = i * 86400000"
  define a where "a = now - s"
  define q where "q = a div b"
  have b: "0 < b" using assms(3) by (simp add: b_def)
  have a: "0 \<le> a" using assms(5) by (simp add: a_def)
  have q: "0 \<le> q" using a b by (simp add: q_def pos_imp_zdiv_nonneg_iff)
  have ts: "t = s + (q + 1) * b" by (simp add: t q_def a_def b_def)
  have span: "(q + 1) * b \<le> 8640000000000000" using ts assms(4,7) by linarith
  have "1 * b \<le> (q + 1) * b" using q b by (intro mult_right_mono) simp_all
  then have b_le: "b \<le> 8640000000000000" using span by simp
  have "a div b * b + a mod b = a" by simp
  moreover have "a mod b < b" using b by simp
  ultimately have "a < q * b + b" unfolding q_def by linarith
  then have a_lt: "a < (q + 1) * b" by (simp add: algebra_simps)
  then have a_le: "a < 8640000000000000" using span by linarith
  have "(q + 1) * 1 \<le> (q + 1) * b" using q b by (intro mult_left_mono) simp_all
  then have q_le: "q + 1 \<le> 8640000000000000" using span by simp
  have e1: "js_of_int (i * 86400000) = Num b"
    using b b_le by (simp add: js_of_int_exact b_def)
  have e2: "js_of_int (now - s) = Num a"
    using a a_le by (simp add: js_of_int_exact a_def)
  have e3: "floorOfQuotient a b = q"
    unfolding q_def using a a_le b by (intro floorOfQuotient_exact) simp_all
  have e4: "js_of_int (q + 1) = Num (q + 1)"
    using q q_le by (simp add: js_of_int_exact)
  have e5: "js_of_int ((q + 1) * b) = Num ((q + 1) * b)"
  proof -
    have "0 \<le> (q + 1) * b" using q b by simp
    with span show ?thesis by (simp add: js_of_int_exact)
  qed
  have e6: "js_of_int (s + (q + 1) * b) = Num t"
  proof -
    have "0 \<le> (q + 1) * b" using q b by simp
    then have "0 \<le> t" using ts assms(4) by linarith
    with assms(7) show ?thesis by (simp add: js_of_int_exact ts)
  qed
  show "nextWateringTimestamp now r = Num t"
    using b by (simp add: nextWateringTimestamp_def i s js_sub_def msInDay_def e1 e2 e3 e4 e5 e6)
  show "now < t" using a_lt ts by (simp add: a_def)
qed

text \<open>
  C1, as the specification words it, does not hold of the code. A reminder saved a few days
  ago with an interval of 100000000 days satisfies its conditions, but the sum that the load
  computes, 8641699740800000, is beyond the range of \<open>Date\<close>: the next watering date in the
  list is an invalid date, which is not after \<open>now\<close>.
\<close>

theorem C1_large_interval_invalid_date:
  "map nextWateringDate (reminders (load 1700000000000 (Some (Json
      [Plain \<lparr>plantName = ascii ''Fern'', interval = Number (Num 100000000),
              startDate = Number (Num 1699740800000)\<rparr>]))))
   = [InvalidDate]"
  by (simp add: eval_defs)

text \<open>
  Within the range of \<open>Date\<close> every step of the arithmetic is exact. Beyond it the sum can
  also differ from the formula: here the formula gives 9008899308800001.
\<close>

lemma rounding_example:
  "nextWateringTimestamp 1700000000001
      \<lparr>plantName = ascii ''Fern'', interval = Number (Num 104249992),
       startDate = Number (Num 1700000000001)\<rparr> = Num 9008899308800000"
  by code_simp

text \<open>
  C1, amended. For a stored reminder with a whole interval of at least one day and a start
  date between the epoch and \<open>now\<close>, whose next watering date by the formula of the
  specification is within the range of \<open>Date\<close>, the list that the load returns holds the
  derived reminder with a valid date of exactly that time: it lies strictly after \<open>now\<close>
  and is the start date plus a positive whole number of intervals. An interval of 7 days
  started 3 days ago is next due in 4 days.
\<close>

theorem C1_next_watering_in_future:
  assumes "obj \<in> set objs"
    and "interval (asReminder obj) = Number (Num i)" and "startDate (asReminder obj) = Number (Num s)"
    and "1 \<le> i" and "0 \<le> s" and "s \<le> now"
    and "s + ((now - s) div (i * 86400000) + 1) * (i * 86400000) \<le> 8640000000000000"
  shows "\<exists>d\<in>set (reminders (load now (Some (Json objs)))). \<exists>t.
           d = fst (deriveReminder now (asReminder obj))
           \<and> nextWateringDate d = Date t
           \<and> t = s + ((now - s) div (i * 86400000) + 1) * (i * 86400000)
           \<and> now < t
           \<and> (\<exists>k\<ge>1. t = s + k * (i * 86400000))
           \<and> (i = 7 \<and> s = now - 3 * 86400000 \<longrightarrow> t = now + 4 * 86400000)"
proof -
  let ?d = "i * 86400000"
  let ?q = "(now - s) div ?d"
  let ?t = "s + (?q + 1) * ?d"
  let ?r = "fst (deriveReminder now (asReminder obj))"
  have mem: "?r \<in> set (reminders (load now (Some (Json objs))))"
    using assms(1) by (simp add: load_Json set_js_sort)
  have ts: "nextWateringTimestamp now (asReminder obj) = Num ?t" and fut: "now < ?t"
    using nextWateringTimestamp_exact [OF assms(2-6) refl assms(7)] by simp_all
  have "0 \<le> now" using assms(5,6) by simp
  then have "\<bar>?t\<bar> \<le> 8640000000000000" using fut assms(7) by simp
  then have date: "nextWateringDate ?r = Date ?t" by (simp add: ts)
  have d: "0 < ?d" using assms(4) by simp
  have "0 \<le> ?q" using d assms(6) by (simp add: pos_imp_zdiv_nonneg_iff)
  then have mult: "\<exists>k\<ge>1. ?t = s + k * ?d"
    by (intro exI [of _ "?q + 1"]) simp
  have ex: "i = 7 \<and> s = now - 3 * 86400000 \<longrightarrow> ?t = now + 4 * 86400000"
    by auto
  from mem date fut mult ex show ?thesis by blast
qed

theorem C1_next_watering_in_future_witness:
  "map nextWateringDate (reminders (load 1700000000000 (Some (Json
      [Plain \<lparr>plantName = ascii ''Monstera'', interval = Number (Num 7),
              startDate = Number (Num (1700000000000 - 3 * 86400000))\<rparr>]))))
   = [Date (1700000000000 + 4 * 86400000)]"
  using C1_next_watering_in_future
    [of "Plain \<lparr>plantName = ascii ''Monstera'', interval = Number (Num 7),
              startDate = Number (Num (1700000000000 - 3 * 86400000))\<rparr>"
        "[Plain \<lparr>plantName = ascii ''Monstera'', interval = Number (Num 7),
              startDate = Number (Num (1700000000000 - 3 * 86400000))\<rparr>]"
        7 "1700000000000 - 3 * 86400000" 1700000000000]
  by (simp add: eval_defs)

section \<open>Properties of the arithmetic beyond the exact range\<close>

lemma rne_div_nonneg: "0 < d \<Longrightarrow> 0 \<le> n \<Longrightarrow> 0 \<le> rne_div n d"
proof -
  assume "0 < d" and "0 \<le> n"
  then have "0 \<le> n div d" by (simp add: pos_imp_zdiv_nonneg_iff)
  with rne_div_lower [of d n] \<open>0 < d\<close> show ?thesis by linarith
qed

lemma floorOfQuotient_nonneg:
  assumes "0 \<le> a" and "0 < b"
  shows "0 \<le> floorOfQuotient a b"
proof (cases "\<bar>a\<bar> < 9007199254740992 * b")
  case True
  have "0 \<le> rne_div (a * 2 ^ scaleUp a b) b"
    using assms by (intro rne_div_nonneg) simp_all
  then have "0 \<le> rne_div (a * 2 ^ scaleUp a b) b div 2 ^ scaleUp a b"
    by (simp add: pos_imp_zdiv_nonneg_iff)
  with True assms show ?thesis by (simp add: floorOfQuotient_def Let_def)
next
  case False
  have "0 \<le> rne_div a (b * 2 ^ scaleDown a b)"
    using assms by (intro rne_div_nonneg) simp_all
  then have "0 \<le> sgn a * (rne_div a (b * 2 ^ scaleDown a b) * 2 ^ scaleDown a b)"
    using assms(1) by (simp add: sgn_if)
  with False assms show ?thesis by (simp add: floorOfQuotient_def Let_def)
qed

lemma js_of_int_atLeast:
  assumes "0 \<le> c" and "c \<le> m" and "c \<le> 9007199254740992"
  shows "numAtLeast c (js_of_int m)"
proof (cases "m \<le> 9007199254740992")
  case True
  with assms have "js_of_int m = Num m" by (simp add: js_of_int_exact)
  with assms(2) show ?thesis by (simp add: numAtLeast_def)
next
  case False
  then have "9007199254740992 \<le> m" by simp
  from js_of_int_big [OF this] show ?thesis
  proof
    assume "js_of_int m = PosInf"
    then show ?thesis by (simp add: numAtLeast_def)
  next
    assume "\<exists>r\<ge>9007199254740992. js_of_int m = Num r"
    then obtain r where "9007199254740992 \<le> r" "js_of_int m = Num r" by blast
    with assms(3) show ?thesis by (simp add: numAtLeast_def)
  qed
qed

lemma new_Date_big:
  "x = NaN \<or> numAtLeast 9007199254740992 x \<Longrightarrow> new_Date x = InvalidDate"
  by (cases x) (auto simp: numAtLeast_def)

lemma add_big:
  assumes "0 \<le> now" and "x = NaN \<or> numAtLeast 9007199254740992 x"
  shows "js_add (Num now) x = NaN \<or> numAtLeast 9007199254740992 (js_add (Num now) x)"
proof (cases x)
  case (Num r)
  with assms(2) have "9007199254740992 \<le> r" by (simp add: numAtLeast_def)
  then have "9007199254740992 \<le> now + r" using assms(1) by simp
  then have "numAtLeast 9007199254740992 (js_of_int (now + r))"
    by (intro js_of_int_atLeast) simp_all
  with Num show ?thesis by simp
next
  case PosInf
  then show ?thesis by (simp add: numAtLeast_def)
next
  case NegInf
  with assms(2) show ?thesis by (simp add: numAtLeast_def)
next
  case NaN
  then show ?thesis by simp
qed

lemma mul_big:
  assumes "k = NaN \<or> numAtLeast 1 k" and "numAtLeast 9007199254740992 b"
  shows "js_mul k b = NaN \<or> numAtLeast 9007199254740992 (js_mul k b)"
proof (cases k)
  case k: (Num r)
  with assms(1) have r: "1 \<le> r" by (simp add: numAtLeast_def)
  show ?thesis
  proof (cases b)
    case (Num r')
    with assms(2) have "9007199254740992 \<le> r'" by (simp add: numAtLeast_def)
    with r have "1 * 9007199254740992 \<le> r * r'" by (intro mult_mono) simp_all
    then have "numAtLeast 9007199254740992 (js_of_int (r * r'))"
      by (intro js_of_int_atLeast) simp_all
    with k Num show ?thesis by simp
  next
    case PosInf
    with k r show ?thesis by (simp add: numAtLeast_def inf_of_sign_def)
  next
    case NegInf
    with assms(2) show ?thesis by (simp add: numAtLeast_def)
  next
    case NaN
    with assms(2) show ?thesis by (simp add: numAtLeast_def)
  qed
next
  case k: PosInf
  show ?thesis
  proof (cases b)
    case (Num r')
    with assms(2) have "9007199254740992 \<le> r'" by (simp add: numAtLeast_def)
    with k Num show ?thesis by (simp add: numAtLeast_def inf_of_sign_def)
  next
    case PosInf
    with k show ?thesis by (simp add: numAtLeast_def inf_of_sign_def)
  next
    case NegInf
    with assms(2) show ?thesis by (simp add: numAtLeast_def)
  next
    case NaN
    with assms(2) show ?thesis by (simp add: numAtLeast_def)
  qed
next
  case NegInf
  with assms(1) show ?thesis by (simp add: numAtLeast_def)
next
  case NaN
  then show ?thesis by simp
qed

lemma quot_step:
  assumes "numAtLeast 0 a" and "numAtLeast 9007199254740992 b"
  shows "js_add (js_floor_div a b) (Num 1) = NaN \<or> numAtLeast 1 (js_add (js_floor_div a b) (Num 1))"
proof (cases a)
  case a: (Num r)
  with assms(1) have r: "0 \<le> r" by (simp add: numAtLeast_def)
  show ?thesis
  proof (cases b)
    case (Num r')
    with assms(2) have r': "9007199254740992 \<le> r'" by (simp add: numAtLeast_def)
    then have "0 \<le> floorOfQuotient r r'" using r by (intro floorOfQuotient_nonneg) simp_all
    then have "numAtLeast 1 (js_of_int (floorOfQuotient r r' + 1))"
      by (intro js_of_int_atLeast) simp_all
    with a Num r' show ?thesis by simp
  next
    case PosInf
    with a show ?thesis by (simp add: numAtLeast_def js_of_int_exact)
  next
    case NegInf
    with assms(2) show ?thesis by (simp add: numAtLeast_def)
  next
    case NaN
    with assms(2) show ?thesis by (simp add: numAtLeast_def)
  qed
next
  case a: PosInf
  show ?thesis
  proof (cases b)
    case (Num r')
    with assms(2) have "9007199254740992 \<le> r'" by (simp add: numAtLeast_def)
    with a Num show ?thesis by (simp add: numAtLeast_def inf_of_sign_def)
  next
    case PosInf
    with a show ?thesis by simp
  next
    case NegInf
    with assms(2) show ?thesis by (simp add: numAtLeast_def)
  next
    case NaN
    with assms(2) show ?thesis by (simp add: numAtLeast_def)
  qed
next
  case NegInf
  with assms(1) show ?thesis by (simp add: numAtLeast_def)
next
  case NaN
  with assms(1) show ?thesis by (simp add: numAtLeast_def)
qed

lemma save_load_same_date:
  assumes "interval r = Number (Num n)" and "startDate r = Number (Num now)"
    and "1 \<le> n" and "0 \<le> now" and "now \<le> later" and "later < now + n * 86400000"
  shows "new_Date (nextWateringTimestamp later r)
         = new_Date (js_add (Num now) (js_mul (Num n) (Num msInDay)))"
proof (cases "n * 86400000 \<le> 9007199254740992")
  case True
  define b where "b = n * 86400000"
  have b: "0 < b" "b \<le> 9007199254740992" using assms(3) True by (simp_all add: b_def)
  have a: "0 \<le> later - now" "later - now < b" using assms(5,6) by (simp_all add: b_def)
  have e1: "js_of_int (n * 86400000) = Num b" using b by (simp add: js_of_int_exact b_def)
  have e2: "js_of_int (later - now) = Num (later - now)" using a b by (simp add: js_of_int_exact)
  have "floorOfQuotient (later - now) b = (later - now) div b"
    using a b by (intro floorOfQuotient_exact) simp_all
  then have e3: "floorOfQuotient (later - now) b = 0" using a by (simp add: div_pos_pos_trivial)
  have e4: "js_of_int 1 = Num 1" by (simp add: js_of_int_exact)
  have e5: "js_of_int b = Num b" using b by (simp add: js_of_int_exact)
  show ?thesis
    using b by (simp add: nextWateringTimestamp_def assms(1,2) js_sub_def msInDay_def e1 e2 e3 e4 e5)
next
  case False
  define b where "b = js_mul (Num n) (Num msInDay)"
  have "9007199254740992 \<le> n * 86400000" using False by simp
  then have "numAtLeast 9007199254740992 (js_of_int (n * 86400000))"
    by (intro js_of_int_atLeast) simp_all
  then have b: "numAtLeast 9007199254740992 b" by (simp add: b_def msInDay_def)
  define a where "a = js_sub (Num later) (Num now)"
  have "numAtLeast 0 (js_of_int (later - now))"
    using assms(5) by (intro js_of_int_atLeast) simp_all
  then have a: "numAtLeast 0 a" by (simp add: a_def js_sub_def)
  have ts: "nextWateringTimestamp later r
            = js_add (Num now) (js_mul (js_add (js_floor_div a b) (Num 1)) b)"
    by (simp add: nextWateringTimestamp_def assms(1,2) a_def b_def Let_def)
  have "new_Date (nextWateringTimestamp later r) = InvalidDate"
    unfolding ts
    by (intro new_Date_big add_big [OF assms(4)] mul_big [OF _ b] quot_step [OF a b])
  moreover have "new_Date (js_add (Num now) b) = InvalidDate"
    using b by (intro new_Date_big add_big [OF assms(4)]) simp
  ultimately show ?thesis by (simp add: b_def)
qed

section \<open>Properties of saving and deleting\<close>

lemma toJSON_object_fields [simp]:
  "plantName (asReminder (toJSON_object obj)) = plantName (asReminder obj)"
  "interval (asReminder (toJSON_object obj)) = toJSON (interval (asReminder obj))"
  "startDate (asReminder (toJSON_object obj)) = toJSON (startDate (asReminder obj))"
  by (cases obj; simp)+

lemma handleSaveReminder_eq:
  assumes "identifiedPlant s = Some name" and "name \<noteq> []"
  shows "handleSaveReminder now i s =
     s\<lparr>localStorage := Some (Json (map toJSON_object
                (map WithDate (filter (\<lambda>r. plantName r \<noteq> name) (reminders s))
                 @ [Plain \<lparr>plantName = name, interval = Number i, startDate = Number (Num now)\<rparr>]))),
       reminders := js_sort byNextWateringDate
          (filter (\<lambda>r. plantName r \<noteq> name) (reminders s)
           @ [\<lparr>plantName = name, interval = Number i, startDate = Number (Num now),
                nextWateringDate = savedNextWateringDate
                  \<lparr>plantName = name, interval = Number i, startDate = Number (Num now)\<rparr>\<rparr>]),
       isReminderModalOpen := False\<rparr>"
  using assms by (simp add: handleSaveReminder_def Let_def JSON_stringify_def)

lemma handleSaveReminder_unchanged:
  "\<not> (\<exists>name. identifiedPlant s = Some name \<and> name \<noteq> []) \<Longrightarrow> handleSaveReminder now i s = s"
  by (auto simp: handleSaveReminder_def split: option.splits)

lemma handleDeleteReminder_eq:
  "handleDeleteReminder n s =
     s\<lparr>localStorage := Some (Json (map toJSON_object
                (map WithDate (filter (\<lambda>r. plantName r \<noteq> n) (reminders s))))),
       reminders := filter (\<lambda>r. plantName r \<noteq> n) (reminders s)\<rparr>"
  by (simp add: handleDeleteReminder_def Let_def JSON_stringify_def)

lemma storedObjects_simps [simp]:
  "storedObjects (s\<lparr>localStorage := Some (Json objs)\<rparr>) = objs"
  "storedObjects (s\<lparr>localStorage := None\<rparr>) = []"
  "storedObjects (s\<lparr>reminders := rs\<rparr>) = storedObjects s"
  "storedObjects (s\<lparr>isReminderModalOpen := b\<rparr>) = storedObjects s"
  "storedObjects (s\<lparr>scheduledAlerts := a\<rparr>) = storedObjects s"
  "storedObjects (s\<lparr>console := c\<rparr>) = storedObjects s"
  by (simp_all add: storedObjects_def)

lemma filter_js_sort_single:
  assumes "filter P xs = [x]"
  shows "filter P (js_sort cmp xs) = [x]"
proof -
  have "mset (filter P (js_sort cmp xs)) = mset (filter P xs)"
    by (simp add: mset_js_sort)
  then have "mset (filter P (js_sort cmp xs)) = {#x#}"
    unfolding assms by simp
  then show ?thesis
    by (rule mset_single_iff [THEN iffD1])
qed

text \<open>
  C3 fails on the code. Both \<open>handleSaveReminder\<close> and \<open>handleDeleteReminder\<close> serialise
  elements of the \<open>reminders\<close> state, which carry \<open>nextWateringDate\<close>: after a reminder for
  Fern and then one for Rose are saved, the stored object for Fern has the fourth key.
\<close>

theorem C3_derived_date_reaches_storage:
  "map keys (storedObjects
     (handleSaveReminder 1700000005000 (Num 3)
        ((handleSaveReminder 1700000000000 (Num 7)
            ((load 1700000000000 None)\<lparr>identifiedPlant := Some (ascii ''Fern'')\<rparr>))
         \<lparr>identifiedPlant := Some (ascii ''Rose'')\<rparr>)))
   = [[''plantName'', ''interval'', ''startDate'', ''nextWateringDate''],
      [''plantName'', ''interval'', ''startDate'']]"
  by (simp add: eval_defs)

text \<open>
  C10. A save, at a reading of the clock that is not before the epoch, puts into the
  \<open>reminders\<close> state one reminder of the saved name, dated by the direct computation of
  line 256. A load of the value which that save stored, run while \<open>later\<close> lies in the
  first interval after the start date, derives the same date for it: the reminder of that
  name in the loaded list is equal to the one in the saved list, field by field.
\<close>

theorem C10_save_path_agrees_with_load_path:
  assumes "identifiedPlant s = Some name" and "name \<noteq> []"
    and "0 \<le> now" and "now \<le> later" and "later < now + n * 86400000"
  shows "let saved = handleSaveReminder now (Num n) s;
             loaded = load later (localStorage saved)
         in filter (\<lambda>d. plantName d = name) (reminders saved)
              = [\<lparr>plantName = name, interval = Number (Num n), startDate = Number (Num now),
                   nextWateringDate = new_Date (js_add (Num now) (js_mul (Num n) (Num msInDay)))\<rparr>]
            \<and> filter (\<lambda>d. plantName d = name) (reminders loaded)
              = filter (\<lambda>d. plantName d = name) (reminders saved)"
proof -
  let ?kept = "filter (\<lambda>r. plantName r \<noteq> name) (reminders s)"
  let ?new = "\<lparr>plantName = name, interval = Number (Num n), startDate = Number (Num now)\<rparr>"
  let ?date = "new_Date (js_add (Num now) (js_mul (Num n) (Num msInDay)))"
  let ?newD = "\<lparr>plantName = name, interval = Number (Num n), startDate = Number (Num now),
                nextWateringDate = ?date\<rparr>"
  let ?saved = "handleSaveReminder now (Num n) s"
  let ?objs = "map toJSON_object (map WithDate ?kept @ [Plain ?new])"
  let ?ds = "map (\<lambda>obj. fst (deriveReminder later (asReminder obj))) ?objs"
  have sd: "savedNextWateringDate ?new = ?date" by (simp add: savedNextWateringDate_def)
  have rem: "reminders ?saved = js_sort byNextWateringDate (?kept @ [?newD])"
    and st: "localStorage ?saved = Some (Json ?objs)"
    by (simp_all add: handleSaveReminder_eq [OF assms(1,2)] sd)
  have "filter (\<lambda>d. plantName d = name) (?kept @ [?newD]) = [?newD]" by simp
  then have a: "filter (\<lambda>d. plantName d = name) (reminders ?saved) = [?newD]"
    unfolding rem by (rule filter_js_sort_single)
  have "0 < n * 86400000" using assms(4,5) by linarith
  then have n: "1 \<le> n" by (simp add: zero_less_mult_iff)
  have "new_Date (nextWateringTimestamp later ?new) = ?date"
    using n assms(3-5) by (intro save_load_same_date) simp_all
  then have "fst (deriveReminder later ?new) = ?newD"
    by (simp add: deriveReminder_def Let_def)
  then have "filter (\<lambda>d. plantName d = name) ?ds = [?newD]"
    by (simp add: filter_map comp_def)
  then have "filter (\<lambda>d. plantName d = name) (js_sort byNextWateringDate ?ds) = [?newD]"
    by (rule filter_js_sort_single)
  then have b: "filter (\<lambda>d. plantName d = name) (reminders (load later (localStorage ?saved))) = [?newD]"
    by (simp add: st load_Json)
  from a b show ?thesis by (simp add: Let_def)
qed

theorem C10_save_path_agrees_with_load_path_witness:
  "map nextWateringDate (reminders (handleSaveReminder 1700000000000 (Num 3)
       ((initialState None)\<lparr>identifiedPlant := Some (ascii ''Fern'')\<rparr>)))
     = [Date 1700259200000]
   \<and> map nextWateringDate (reminders (load 1700000000000 (localStorage
       (handleSaveReminder 1700000000000 (Num 3)
          ((initialState None)\<lparr>identifiedPlant := Some (ascii ''Fern'')\<rparr>)))))
     = [Date 1700259200000]"
  using C10_save_path_agrees_with_load_path
    [of "(initialState None)\<lparr>identifiedPlant := Some (ascii ''Fern'')\<rparr>" "ascii ''Fern''"
        1700000000000 1700000000000 3]
  by (simp add: eval_defs)

text \<open>
  C4, as the specification states it, fails: a stored array that holds a record with the
  invalid interval \<open>0\<close> is not discarded. The record is loaded with an invalid date, and
  the stored value stays as it was.
\<close>

theorem C4_invalid_record_kept:
  "reminders (load 1700000000000 (Some (Json
      [Plain \<lparr>plantName = ascii ''Fern'', interval = Number (Num 0),
              startDate = Number (Num 1600000000000)\<rparr>])))
   = [\<lparr>plantName = ascii ''Fern'', interval = Number (Num 0),
        startDate = Number (Num 1600000000000), nextWateringDate = InvalidDate\<rparr>]
   \<and> localStorage (load 1700000000000 (Some (Json
      [Plain \<lparr>plantName = ascii ''Fern'', interval = Number (Num 0),
              startDate = Number (Num 1600000000000)\<rparr>])))
   = Some (Json [Plain \<lparr>plantName = ascii ''Fern'', interval = Number (Num 0),
              startDate = Number (Num 1600000000000)\<rparr>])"
  by (simp add: eval_defs)

text \<open>
  C4, amended. A stored text that \<open>JSON.parse\<close> rejects, one that parses to something
  other than an array, and an array with a \<open>null\<close> entry are removed from storage; the
  reminder list stays empty and no error is set, the failure is only logged. Before a
  \<open>null\<close> entry is reached, the alerts of the due records ahead of it have been scheduled.
  An empty stored text is left alone, with an empty list. An array of records is not
  discarded, whatever the values of their fields: every record is loaded with its fields as
  stored, and the stored value and the error state stay as they were.
\<close>

theorem C4_unreadable_storage_fails_soft:
  "load now (Some Malformed) = (initialState None)\<lparr>console := [ParseRemindersFailed]\<rparr>
   \<and> load now (Some NotArray) = (initialState None)\<lparr>console := [ParseRemindersFailed]\<rparr>
   \<and> load now (Some (JsonWithNull before after))
       = (initialState None)
           \<lparr>scheduledAlerts := concat (map (\<lambda>obj. snd (deriveReminder now (asReminder obj))) before),
            console := [ParseRemindersFailed]\<rparr>
   \<and> reminders (load now (Some Malformed)) = []
   \<and> reminders (load now (Some NotArray)) = []
   \<and> reminders (load now (Some (JsonWithNull before after))) = []
   \<and> localStorage (load now (Some Malformed)) = None
   \<and> localStorage (load now (Some NotArray)) = None
   \<and> localStorage (load now (Some (JsonWithNull before after))) = None
   \<and> error (load now (Some Malformed)) = None
   \<and> error (load now (Some NotArray)) = None
   \<and> error (load now (Some (JsonWithNull before after))) = None
   \<and> load now (Some EmptyText) = initialState (Some EmptyText)
   \<and> mset (map (\<lambda>d. \<lparr>plantName = plantName d, interval = interval d, startDate = startDate d\<rparr>)
              (reminders (load now (Some (Json objs)))))
        = mset (map asReminder objs)
   \<and> localStorage (load now (Some (Json objs))) = Some (Json objs)
   \<and> error (load now (Some (Json objs))) = None"
proof -
  have m: "mset (map (\<lambda>d. \<lparr>plantName = plantName d, interval = interval d, startDate = startDate d\<rparr>)
              (reminders (load now (Some (Json objs)))))
        = mset (map asReminder objs)"
  proof -
    have "(\<lambda>obj. \<lparr>plantName = plantName (asReminder obj), interval = interval (asReminder obj),
                   startDate = startDate (asReminder obj)\<rparr>) = asReminder"
      by (rule ext) simp
    then show ?thesis
      by (simp add: load_Json mset_js_sort comp_def multiset.map_comp)
  qed
  have a: "load now (Some Malformed) = (initialState None)\<lparr>console := [ParseRemindersFailed]\<rparr>"
    "load now (Some NotArray) = (initialState None)\<lparr>console := [ParseRemindersFailed]\<rparr>"
    "load now (Some EmptyText) = initialState (Some EmptyText)"
    by (simp_all add: load_def loadReminders_def initialState_def discardStored_def)
  have b: "load now (Some (JsonWithNull before after))
       = (initialState None)
           \<lparr>scheduledAlerts := concat (map (\<lambda>obj. snd (deriveReminder now (asReminder obj))) before),
            console := [ParseRemindersFailed]\<rparr>"
    by (simp add: load_def loadReminders_def initialState_def discardStored_def mapReminders_null)
  show ?thesis
    unfolding a b using m by (simp add: load_Json) (simp add: initialState_def)
qed

theorem C4_unreadable_storage_fails_soft_witness:
  "reminders (load 1700000000000 (Some (JsonWithNull
      [Plain \<lparr>plantName = ascii ''Rose'', interval = Number (Num 2),
              startDate = Number (Num (1700000000000 - 3 * 86400000 - 1))\<rparr>] []))) = []
   \<and> localStorage (load 1700000000000 (Some (JsonWithNull
      [Plain \<lparr>plantName = ascii ''Rose'', interval = Number (Num 2),
              startDate = Number (Num (1700000000000 - 3 * 86400000 - 1))\<rparr>] []))) = None
   \<and> scheduledAlerts (load 1700000000000 (Some (JsonWithNull
      [Plain \<lparr>plantName = ascii ''Rose'', interval = Number (Num 2),
              startDate = Number (Num (1700000000000 - 3 * 86400000 - 1))\<rparr>] []))) = [ascii ''Rose'']
   \<and> console (load 1700000000000 (Some Malformed)) = [ParseRemindersFailed]"
  using C4_unreadable_storage_fails_soft [of 1700000000000
      "[Plain \<lparr>plantName = ascii ''Rose'', interval = Number (Num 2),
              startDate = Number (Num (1700000000000 - 3 * 86400000 - 1))\<rparr>]" "[]" "[]"]
  by (simp add: eval_defs)

section \<open>Properties of the invariants\<close>

lemma withinDateRange_D:
  assumes "withinDateRange now r"
  shows "\<exists>i s. interval r = Number (Num i) \<and> startDate r = Number (Num s)
           \<and> 1 \<le> i \<and> 0 \<le> s \<and> s \<le> now
           \<and> s + ((now - s) div (i * 86400000) + 1) * (i * 86400000) \<le> 8640000000000000"
proof (cases "interval r")
  case Null
  with assms show ?thesis by (simp add: withinDateRange_def)
next
  case (Number x)
  note x = this
  show ?thesis
  proof (cases "startDate r")
    case Null
    with assms x show ?thesis by (simp add: withinDateRange_def split: jsnum.splits)
  next
    case (Number y)
    with assms x show ?thesis
      by (cases x; cases y) (simp_all add: withinDateRange_def)
  qed
qed

lemma withinDateRange_valid:
  assumes "withinDateRange now r"
  shows "new_Date (nextWateringTimestamp now r) \<noteq> InvalidDate"
proof -
  from withinDateRange_D [OF assms] obtain i s
    where f: "interval r = Number (Num i)" "startDate r = Number (Num s)"
    and b: "1 \<le> i" "0 \<le> s" "s \<le> now"
      "s + ((now - s) div (i * 86400000) + 1) * (i * 86400000) \<le> 8640000000000000"
    by blast
  define t where "t = s + ((now - s) div (i * 86400000) + 1) * (i * 86400000)"
  have "nextWateringTimestamp now r = Num t" and "now < t"
    using nextWateringTimestamp_exact [OF f b(1-3) t_def] b(4) by (simp_all add: t_def)
  moreover have "t \<le> 8640000000000000" using b(4) by (simp add: t_def)
  ultimately show ?thesis using b by simp
qed

lemma withinDateRange_cong:
  "interval r' = interval r \<Longrightarrow> startDate r' = startDate r \<Longrightarrow>
   withinDateRange now r' = withinDateRange now r"
  by (simp add: withinDateRange_def)

lemma withinDateRange_toJSON:
  assumes "withinDateRange now r"
  shows "toJSON (interval r) = interval r" and "toJSON (startDate r) = startDate r"
  using withinDateRange_D [OF assms] by auto

lemma loadReminders_cases:
  "(reminders (loadReminders now s) = reminders s
      \<and> (localStorage (loadReminders now s) = localStorage s
         \<or> localStorage (loadReminders now s) = None))
   \<or> (\<exists>objs. localStorage s = Some (Json objs)
         \<and> localStorage (loadReminders now s) = Some (Json objs)
         \<and> reminders (loadReminders now s)
             = js_sort byNextWateringDate (map (\<lambda>obj. fst (deriveReminder now (asReminder obj))) objs))"
proof (cases "localStorage s")
  case None
  then show ?thesis by (simp add: loadReminders_def)
next
  case (Some stored)
  show ?thesis
  proof (cases stored)
    case EmptyText
    with Some show ?thesis by (simp add: loadReminders_def)
  next
    case Malformed
    with Some show ?thesis by (simp add: loadReminders_def discardStored_def)
  next
    case NotArray
    with Some show ?thesis by (simp add: loadReminders_def discardStored_def)
  next
    case (Json objs)
    with Some show ?thesis by (simp add: loadReminders_def mapReminders_objects)
  next
    case (JsonWithNull before after)
    with Some show ?thesis by (simp add: loadReminders_def discardStored_def mapReminders_null)
  qed
qed

lemma distinct_names_filter:
  "distinct (map f xs) \<Longrightarrow> distinct (map f (filter P xs))"
  by (simp add: distinct_map_filter)

lemma length_filter_distinct_name:
  assumes "distinct (map f xs)" and "n \<in> f ` set xs"
  shows "length (filter (\<lambda>x. f x \<noteq> n) xs) + 1 = length xs"
  using assms
proof (induction xs)
  case Nil
  then show ?case by simp
next
  case (Cons x xs)
  show ?case
  proof (cases "f x = n")
    case True
    with Cons.prems have "n \<notin> f ` set xs" by auto
    then have "filter (\<lambda>x. f x \<noteq> n) xs = xs" by (auto simp: filter_id_conv)
    with True show ?thesis by simp
  next
    case False
    with Cons show ?thesis by auto
  qed
qed

lemma filter_absent_name:
  "n \<notin> f ` set xs \<Longrightarrow> filter (\<lambda>x. f x \<noteq> n) xs = xs"
  by (auto simp: filter_id_conv)

lemma uniqueNames_save: "uniqueNames s \<Longrightarrow> uniqueNames (handleSaveReminder now iv s)"
proof (cases "\<exists>name. identifiedPlant s = Some name \<and> name \<noteq> []")
  case False
  assume "uniqueNames s"
  with False show ?thesis by (simp add: handleSaveReminder_unchanged)
next
  case True
  assume u: "uniqueNames s"
  from True obtain name where n: "identifiedPlant s = Some name" "name \<noteq> []" by blast
  from u have d: "distinct (map plantName (filter (\<lambda>r. plantName r \<noteq> name) (reminders s)))"
    by (simp add: uniqueNames_def distinct_map_filter)
  show ?thesis
    using d by (auto simp: handleSaveReminder_eq [OF n] uniqueNames_def distinct_map_js_sort comp_def)
qed

lemma uniqueNames_delete: "uniqueNames s \<Longrightarrow> uniqueNames (handleDeleteReminder other s)"
  by (simp add: handleDeleteReminder_eq uniqueNames_def distinct_map_filter comp_def)

lemma uniqueNames_loadReminders: "uniqueNames s \<Longrightarrow> uniqueNames (loadReminders later s)"
proof -
  assume u: "uniqueNames s"
  from loadReminders_cases [of later s] show ?thesis
  proof
    assume a: "reminders (loadReminders later s) = reminders s
      \<and> (localStorage (loadReminders later s) = localStorage s
         \<or> localStorage (loadReminders later s) = None)"
    then have "storedObjects (loadReminders later s) = storedObjects s
        \<or> storedObjects (loadReminders later s) = []"
      by (auto simp: storedObjects_def)
    with a u show ?thesis by (auto simp: uniqueNames_def)
  next
    assume "\<exists>objs. localStorage s = Some (Json objs)
         \<and> localStorage (loadReminders later s) = Some (Json objs)
         \<and> reminders (loadReminders later s)
             = js_sort byNextWateringDate (map (\<lambda>obj. fst (deriveReminder later (asReminder obj))) objs)"
    then obtain objs where o: "localStorage s = Some (Json objs)"
      "localStorage (loadReminders later s) = Some (Json objs)"
      "reminders (loadReminders later s)
             = js_sort byNextWateringDate (map (\<lambda>obj. fst (deriveReminder later (asReminder obj))) objs)"
      by blast
    from u o(1) have "distinct (map (\<lambda>obj. plantName (asReminder obj)) objs)"
      by (simp add: uniqueNames_def storedObjects_def)
    then show ?thesis
      by (simp add: uniqueNames_def storedObjects_def o(2,3) distinct_map_js_sort comp_def)
  qed
qed

lemma storeMatchesList_load: "storeMatchesList (load later stored)"
proof (cases stored)
  case None
  then show ?thesis
    by (simp add: storeMatchesList_def load_def loadReminders_def initialState_def storedObjects_def)
next
  case (Some st)
  show ?thesis
  proof (cases st)
    case (Json objs)
    with Some show ?thesis
      by (simp add: storeMatchesList_def load_Json mset_js_sort multiset.map_comp comp_def)
        (simp add: initialState_def storedObjects_def)
  next
    case (JsonWithNull before after)
    with Some show ?thesis
      by (simp add: storeMatchesList_def load_def loadReminders_def initialState_def
          discardStored_def mapReminders_null storedObjects_def)
  qed (use Some in \<open>simp_all add: storeMatchesList_def load_def loadReminders_def initialState_def
          discardStored_def storedObjects_def\<close>)
qed

lemma storeMatchesList_delete: "storeMatchesList (handleDeleteReminder other s)"
  by (simp add: storeMatchesList_def handleDeleteReminder_eq comp_def)

lemma storeMatchesList_save:
  "identifiedPlant s = Some name \<Longrightarrow> name \<noteq> [] \<Longrightarrow> storeMatchesList (handleSaveReminder now iv s)"
  by (simp add: storeMatchesList_def handleSaveReminder_eq mset_js_sort comp_def)

text \<open>
  C6. The reminder store holds at most one reminder for a plant name, in the \<open>reminders\<close>
  state and in the stored array alike: saving, deleting and loading keep the names distinct,
  and after a load, a delete or a save the stored array holds the names of the list. A save
  leaves exactly one reminder with the saved name, carrying the saved interval and the start
  date \<open>now\<close>; when the name had a reminder already, the list and the stored array keep
  their sizes.
\<close>

theorem C6_one_reminder_per_plant:
  "(uniqueNames s \<longrightarrow>
      uniqueNames (handleSaveReminder now iv s)
      \<and> uniqueNames (handleDeleteReminder other s)
      \<and> uniqueNames (loadReminders later s))
   \<and> (uniqueNames (initialState stored) \<longrightarrow> uniqueNames (load later stored))
   \<and> uniqueNames (initialState None)
   \<and> storeMatchesList (load later stored)
   \<and> storeMatchesList (handleDeleteReminder other s)
   \<and> (identifiedPlant s = Some name \<and> name \<noteq> [] \<longrightarrow>
        (let saved = handleSaveReminder now iv s in
           storeMatchesList saved
           \<and> length (filter (\<lambda>r. plantName r = name) (reminders saved)) = 1
           \<and> length (filter (\<lambda>obj. plantName (asReminder obj) = name) (storedObjects saved)) = 1
           \<and> (\<forall>r\<in>set (reminders saved). plantName r = name \<longrightarrow>
                 interval r = Number iv \<and> startDate r = Number (Num now))
           \<and> (\<forall>obj\<in>set (storedObjects saved). plantName (asReminder obj) = name \<longrightarrow>
                 interval (asReminder obj) = toJSON (Number iv)
                 \<and> startDate (asReminder obj) = Number (Num now))
           \<and> (uniqueNames s \<and> name \<in> plantName ` set (reminders s) \<longrightarrow>
                 length (reminders saved) = length (reminders s)
                 \<and> (storeMatchesList s \<longrightarrow>
                      length (storedObjects saved) = length (storedObjects s)))
           \<and> (name \<notin> plantName ` set (reminders s) \<longrightarrow>
                 length (reminders saved) = length (reminders s) + 1)))"
proof -
  have inv: "uniqueNames s \<longrightarrow>
      uniqueNames (handleSaveReminder now iv s)
      \<and> uniqueNames (handleDeleteReminder other s)
      \<and> uniqueNames (loadReminders later s)"
    by (simp add: uniqueNames_save uniqueNames_delete uniqueNames_loadReminders)
  have ld: "uniqueNames (initialState stored) \<longrightarrow> uniqueNames (load later stored)"
    by (simp add: load_def uniqueNames_loadReminders)
  have init: "uniqueNames (initialState None)"
    by (simp add: uniqueNames_def initialState_def storedObjects_def)
  have sv: "let saved = handleSaveReminder now iv s in
           storeMatchesList saved
           \<and> length (filter (\<lambda>r. plantName r = name) (reminders saved)) = 1
           \<and> length (filter (\<lambda>obj. plantName (asReminder obj) = name) (storedObjects saved)) = 1
           \<and> (\<forall>r\<in>set (reminders saved). plantName r = name \<longrightarrow>
                 interval r = Number iv \<and> startDate r = Number (Num now))
           \<and> (\<forall>obj\<in>set (storedObjects saved). plantName (asReminder obj) = name \<longrightarrow>
                 interval (asReminder obj) = toJSON (Number iv)
                 \<and> startDate (asReminder obj) = Number (Num now))
           \<and> (uniqueNames s \<and> name \<in> plantName ` set (reminders s) \<longrightarrow>
                 length (reminders saved) = length (reminders s)
                 \<and> (storeMatchesList s \<longrightarrow>
                      length (storedObjects saved) = length (storedObjects s)))
           \<and> (name \<notin> plantName ` set (reminders s) \<longrightarrow>
                 length (reminders saved) = length (reminders s) + 1)"
    if n: "identifiedPlant s = Some name" "name \<noteq> []"
  proof -
    let ?saved = "handleSaveReminder now iv s"
    let ?kept = "filter (\<lambda>r. plantName r \<noteq> name) (reminders s)"
    let ?new = "\<lparr>plantName = name, interval = Number iv, startDate = Number (Num now)\<rparr>"
    let ?newD = "\<lparr>plantName = name, interval = Number iv, startDate = Number (Num now),
                  nextWateringDate = savedNextWateringDate ?new\<rparr>"
    have rem: "reminders ?saved = js_sort byNextWateringDate (?kept @ [?newD])"
      and st: "storedObjects ?saved = map toJSON_object (map WithDate ?kept @ [Plain ?new])"
      by (simp_all add: handleSaveReminder_eq [OF n])
    have 1: "storeMatchesList ?saved" by (rule storeMatchesList_save [OF n])
    have 2: "length (filter (\<lambda>r. plantName r = name) (reminders ?saved)) = 1"
      by (simp add: rem filter_js_sort_length)
    have 3: "length (filter (\<lambda>obj. plantName (asReminder obj) = name) (storedObjects ?saved)) = 1"
      by (simp add: st filter_map comp_def)
    have 4: "\<forall>r\<in>set (reminders ?saved). plantName r = name \<longrightarrow>
                 interval r = Number iv \<and> startDate r = Number (Num now)"
      by (auto simp: rem set_js_sort)
    have 5: "\<forall>obj\<in>set (storedObjects ?saved). plantName (asReminder obj) = name \<longrightarrow>
                 interval (asReminder obj) = toJSON (Number iv)
                 \<and> startDate (asReminder obj) = Number (Num now)"
      by (auto simp: st)
    have 6: "length (reminders ?saved) = length (reminders s)
                 \<and> (storeMatchesList s \<longrightarrow>
                      length (storedObjects ?saved) = length (storedObjects s))"
      if "uniqueNames s" "name \<in> plantName ` set (reminders s)"
    proof -
      from that have "length ?kept + 1 = length (reminders s)"
        by (intro length_filter_distinct_name) (simp_all add: uniqueNames_def)
      moreover have "storeMatchesList s \<Longrightarrow> length (storedObjects s) = length (reminders s)"
        unfolding storeMatchesList_def by (metis size_mset length_map)
      ultimately show ?thesis by (simp add: rem st length_js_sort)
    qed
    have 7: "length (reminders ?saved) = length (reminders s) + 1"
      if "name \<notin> plantName ` set (reminders s)"
      using that by (simp add: rem length_js_sort filter_absent_name)
    from 1 2 3 4 5 6 7 show ?thesis unfolding Let_def by blast
  qed
  from inv ld init sv storeMatchesList_load [of later stored] storeMatchesList_delete [of other s]
  show ?thesis by blast
qed

theorem C6_one_reminder_per_plant_witness:
  "uniqueNames (handleSaveReminder 1700000005000 (Num 3)
      ((handleSaveReminder 1700000000000 (Num 7)
          ((load 1700000000000 None)\<lparr>identifiedPlant := Some (ascii ''Fern'')\<rparr>))))
   \<and> map interval (reminders (handleSaveReminder 1700000005000 (Num 3)
      ((handleSaveReminder 1700000000000 (Num 7)
          ((load 1700000000000 None)\<lparr>identifiedPlant := Some (ascii ''Fern'')\<rparr>)))))
      = [Number (Num 3)]
   \<and> length (storedObjects (handleSaveReminder 1700000005000 (Num 3)
      ((handleSaveReminder 1700000000000 (Num 7)
          ((load 1700000000000 None)\<lparr>identifiedPlant := Some (ascii ''Fern'')\<rparr>))))) = 1"
  using C6_one_reminder_per_plant
    [of "handleSaveReminder 1700000000000 (Num 7)
          ((load 1700000000000 None)\<lparr>identifiedPlant := Some (ascii ''Fern'')\<rparr>)"
        1700000005000 "Num 3" "ascii ''Rose''" 1700000005000 None "ascii ''Fern''"]
  by (simp add: eval_defs uniqueNames_def storeMatchesList_def)

section \<open>Properties of a save followed by a load\<close>

text \<open>A list of two or more reminders that is ascending by date holds no invalid date.\<close>

lemma sorted_wrt_invalid:
  "sorted_wrt (\<lambda>a b. js_ge (getTime (nextWateringDate b)) (getTime (nextWateringDate a))) xs
   \<Longrightarrow> 2 \<le> length xs \<Longrightarrow> \<forall>x\<in>set xs. nextWateringDate x \<noteq> InvalidDate"
proof (induction xs)
  case Nil
  then show ?case by simp
next
  case (Cons x xs)
  show ?case
  proof (cases xs)
    case Nil
    with Cons.prems show ?thesis by simp
  next
    case (Cons y ys)
    with Cons.prems have "js_ge (getTime (nextWateringDate y)) (getTime (nextWateringDate x))"
      by simp
    then have "nextWateringDate x \<noteq> InvalidDate"
      by (cases "nextWateringDate x"; cases "nextWateringDate y") simp_all
    moreover have "\<forall>z\<in>set xs. nextWateringDate z \<noteq> InvalidDate"
    proof (cases ys)
      case Nil
      from Cons.prems(1) \<open>xs = y # ys\<close>
      have "js_ge (getTime (nextWateringDate y)) (getTime (nextWateringDate x))" by simp
      then have "nextWateringDate y \<noteq> InvalidDate"
        by (cases "nextWateringDate x"; cases "nextWateringDate y") simp_all
      with Nil \<open>xs = y # ys\<close> show ?thesis by simp
    next
      case (Cons z zs)
      with \<open>xs = y # ys\<close> Cons.prems Cons.IH show ?thesis by simp
    qed
    ultimately show ?thesis by simp
  qed
qed

text \<open>
  C2, as the specification words it, does not hold of the code. Saved with an interval of
  100000000 days beside a reminder of three days, the next load derives an invalid date for
  the record, and the list is then not ascending by \<open>nextWateringDate\<close>, whatever order the
  sort leaves it in. Saved with an infinite interval, the record comes back from the next
  load with the interval \<open>null\<close>.
\<close>

theorem C2_invalid_date_breaks_order:
  "\<not> sorted_wrt (\<lambda>a b. js_ge (getTime (nextWateringDate b)) (getTime (nextWateringDate a)))
      (reminders (load 1700000000000 (localStorage
         (handleSaveReminder 1700000000000 (Num 100000000)
            ((handleSaveReminder 1700000000000 (Num 3)
                ((load 1700000000000 None)\<lparr>identifiedPlant := Some (ascii ''Rose'')\<rparr>))
             \<lparr>identifiedPlant := Some (ascii ''Fern'')\<rparr>)))))
   \<and> InvalidDate \<in> set (map nextWateringDate
      (reminders (load 1700000000000 (localStorage
         (handleSaveReminder 1700000000000 (Num 100000000)
            ((handleSaveReminder 1700000000000 (Num 3)
                ((load 1700000000000 None)\<lparr>identifiedPlant := Some (ascii ''Rose'')\<rparr>))
             \<lparr>identifiedPlant := Some (ascii ''Fern'')\<rparr>))))))
   \<and> map interval
      (reminders (load 1700000000000 (localStorage
         (handleSaveReminder 1700000000000 PosInf
            ((load 1700000000000 None)\<lparr>identifiedPlant := Some (ascii ''Fern'')\<rparr>)))))
      = [Null]"
  by (simp add: eval_defs)

text \<open>
  C2, amended. After a save for a plant name, the next load returns a list with exactly one
  record of that name; it carries the start date of the save and the saved interval as JSON
  holds it, which is the saved interval when that is finite. The list is ascending by
  \<open>nextWateringDate\<close> when every date derived by the load is valid, as is the case when
  every record has an interval of at least one day, a start date that is not in the future
  and a next watering date within the range of \<open>Date\<close>.
\<close>

theorem C2_save_then_load:
  assumes "identifiedPlant s = Some name" and "name \<noteq> []"
  shows "let loaded = load later (localStorage (handleSaveReminder now iv s)) in
     length (filter (\<lambda>r. plantName r = name) (reminders loaded)) = 1
     \<and> (\<forall>r\<in>set (reminders loaded). plantName r = name \<longrightarrow>
           interval r = toJSON (Number iv) \<and> startDate r = Number (Num now)
           \<and> (iv = Num n \<longrightarrow> interval r = Number (Num n)))
     \<and> ((\<forall>r\<in>set (reminders loaded). nextWateringDate r \<noteq> InvalidDate) \<longrightarrow>
           sorted_wrt (\<lambda>a b. js_ge (getTime (nextWateringDate b)) (getTime (nextWateringDate a)))
             (reminders loaded))
     \<and> (withinDateRange later \<lparr>plantName = name, interval = Number iv, startDate = Number (Num now)\<rparr>
          \<and> (\<forall>r\<in>set (reminders s). withinDateRange later r) \<longrightarrow>
           (\<forall>r\<in>set (reminders loaded). nextWateringDate r \<noteq> InvalidDate)
           \<and> sorted_wrt (\<lambda>a b. js_ge (getTime (nextWateringDate b)) (getTime (nextWateringDate a)))
               (reminders loaded))"
proof -
  let ?kept = "filter (\<lambda>r. plantName r \<noteq> name) (reminders s)"
  let ?new = "\<lparr>plantName = name, interval = Number iv, startDate = Number (Num now)\<rparr>"
  let ?objs = "map toJSON_object (map WithDate ?kept @ [Plain ?new])"
  let ?ds = "map (\<lambda>obj. fst (deriveReminder later (asReminder obj))) ?objs"
  let ?loaded = "load later (localStorage (handleSaveReminder now iv s))"
  let ?asc = "sorted_wrt (\<lambda>a b. js_ge (getTime (nextWateringDate b)) (getTime (nextWateringDate a)))"
  have rem: "reminders ?loaded = js_sort byNextWateringDate ?ds"
    by (simp add: handleSaveReminder_eq [OF assms] load_Json)
  have 1: "length (filter (\<lambda>r. plantName r = name) (reminders ?loaded)) = 1"
    by (simp add: rem filter_js_sort_length filter_map comp_def)
  have 2: "\<forall>r\<in>set (reminders ?loaded). plantName r = name \<longrightarrow>
           interval r = toJSON (Number iv) \<and> startDate r = Number (Num now)
           \<and> (iv = Num n \<longrightarrow> interval r = Number (Num n))"
    by (auto simp: rem set_js_sort)
  have 3: "?asc (reminders ?loaded)" if "\<forall>r\<in>set (reminders ?loaded). nextWateringDate r \<noteq> InvalidDate"
  proof -
    from that have "\<forall>r\<in>set ?ds. nextWateringDate r \<noteq> InvalidDate"
      by (simp only: rem set_js_sort)
    then show ?thesis unfolding rem by (rule js_sort_ascending)
  qed
  have 4: "\<forall>r\<in>set (reminders ?loaded). nextWateringDate r \<noteq> InvalidDate"
    if w: "withinDateRange later ?new" "\<forall>r\<in>set (reminders s). withinDateRange later r"
  proof -
    have "nextWateringDate (fst (deriveReminder later (asReminder (toJSON_object obj)))) \<noteq> InvalidDate"
      if "withinDateRange later (asReminder obj)" for obj
    proof -
      from withinDateRange_toJSON [OF that]
      have "withinDateRange later (asReminder (toJSON_object obj))
              = withinDateRange later (asReminder obj)"
        by (intro withinDateRange_cong) simp_all
      with that show ?thesis by (simp add: withinDateRange_valid)
    qed
    moreover have "withinDateRange later (asReminder obj)"
      if "obj \<in> set (map WithDate ?kept @ [Plain ?new])" for obj
    proof -
      from that consider "obj = Plain ?new" | r where "r \<in> set (reminders s)" "obj = WithDate r"
        by auto
      then show ?thesis
      proof cases
        case 1
        with w(1) show ?thesis by simp
      next
        case 2
        with w(2) have "withinDateRange later r" by simp
        moreover have "withinDateRange later (asReminder (WithDate r)) = withinDateRange later r"
          by (intro withinDateRange_cong) simp_all
        ultimately show ?thesis using 2 by simp
      qed
    qed
    ultimately show ?thesis
      unfolding rem set_js_sort by (simp only: set_map image_iff Bex_def Ball_def) blast
  qed
  from 1 2 3 4 show ?thesis unfolding Let_def by blast
qed

theorem C2_save_then_load_witness:
  "map plantName (reminders (load 1700000100000 (localStorage
       (handleSaveReminder 1700000005000 (Num 3)
          ((handleSaveReminder 1700000000000 (Num 7)
              ((load 1700000000000 None)\<lparr>identifiedPlant := Some (ascii ''Fern'')\<rparr>))
           \<lparr>identifiedPlant := Some (ascii ''Rose'')\<rparr>)))))
     = [ascii ''Rose'', ascii ''Fern'']
   \<and> map interval (reminders (load 1700000100000 (localStorage
       (handleSaveReminder 1700000005000 (Num 3)
          ((handleSaveReminder 1700000000000 (Num 7)
              ((load 1700000000000 None)\<lparr>identifiedPlant := Some (ascii ''Fern'')\<rparr>))
           \<lparr>identifiedPlant := Some (ascii ''Rose'')\<rparr>)))))
     = [Number (Num 3), Number (Num 7)]
   \<and> map nextWateringDate (reminders (load 1700000100000 (localStorage
       (handleSaveReminder 1700000005000 (Num 3)
          ((handleSaveReminder 1700000000000 (Num 7)
              ((load 1700000000000 None)\<lparr>identifiedPlant := Some (ascii ''Fern'')\<rparr>))
           \<lparr>identifiedPlant := Some (ascii ''Rose'')\<rparr>)))))
     = [Date 1700259205000, Date 1700604800000]"
  using C2_save_then_load
    [of "(handleSaveReminder 1700000000000 (Num 7)
              ((load 1700000000000 None)\<lparr>identifiedPlant := Some (ascii ''Fern'')\<rparr>))
           \<lparr>identifiedPlant := Some (ascii ''Rose'')\<rparr>" "ascii ''Rose''"
        1700000100000 1700000005000 "Num 3" 3]
  by (simp add: eval_defs withinDateRange_def)

section \<open>Properties of the modal\<close>

lemma foldl_digits_bound:
  assumes "\<forall>c\<in>set ds. isDigit c" and "0 \<le> acc"
  shows "0 \<le> foldl (\<lambda>acc c. 10 * acc + (int c - 48)) acc ds
         \<and> foldl (\<lambda>acc c. 10 * acc + (int c - 48)) acc ds < (acc + 1) * 10 ^ length ds"
  using assms
proof (induction ds arbitrary: acc)
  case Nil
  then show ?case by simp
next
  case (Cons c ds)
  from Cons.prems have c: "48 \<le> c" "c \<le> 57" by (simp_all add: isDigit_def)
  define a where "a = 10 * acc + (int c - 48)"
  have a: "0 \<le> a" "a + 1 \<le> 10 * (acc + 1)" using c Cons.prems(2) by (simp_all add: a_def)
  from Cons.IH [of a] Cons.prems a(1)
  have ih: "0 \<le> foldl (\<lambda>acc c. 10 * acc + (int c - 48)) a ds"
    "foldl (\<lambda>acc c. 10 * acc + (int c - 48)) a ds < (a + 1) * 10 ^ length ds"
    by simp_all
  have "(a + 1) * 10 ^ length ds \<le> (10 * (acc + 1)) * 10 ^ length ds"
    using a(2) by (intro mult_right_mono) simp_all
  with ih(2) have "foldl (\<lambda>acc c. 10 * acc + (int c - 48)) a ds < (10 * (acc + 1)) * 10 ^ length ds"
    by linarith
  moreover have "(10 * (acc + 1)) * 10 ^ length ds = (acc + 1) * 10 ^ length (c # ds)"
    by simp
  moreover have "foldl (\<lambda>acc c. 10 * acc + (int c - 48)) acc (c # ds)
      = foldl (\<lambda>acc c. 10 * acc + (int c - 48)) a ds"
    by (simp add: a_def)
  ultimately show ?case using ih(1) by (simp only:)
qed

lemma digitsValue_bound:
  "\<forall>c\<in>set ds. isDigit c \<Longrightarrow> 0 \<le> digitsValue ds \<and> digitsValue ds < 10 ^ length ds"
  using foldl_digits_bound [of ds 0] by (simp add: digitsValue_def)

lemma js_of_int_finite:
  assumes "0 \<le> m" and "m < 10 ^ 308"
  shows "\<exists>k. js_of_int m = Num k"
proof -
  have "(10::int) ^ 308 < 2 ^ 1024 - 2 ^ 970" by simp
  with assms have "\<bar>m\<bar> < 2 ^ 1024 - 2 ^ 970" by linarith
  then show ?thesis by (simp add: js_of_int_def)
qed

lemma parseInt_finite:
  assumes "length v \<le> 308"
  shows "parseInt v = NaN \<or> (\<exists>k. parseInt v = Num k)"
proof -
  define t where "t = dropWhile isWhiteSpace v"
  define u where "u = (if t \<noteq> [] \<and> (hd t = 45 \<or> hd t = 43) then tl t else t)"
  define ds where "ds = takeWhile isDigit u"
  have "length t \<le> length v" by (simp add: t_def length_dropWhile_le)
  moreover have "length u \<le> length t" by (simp add: u_def)
  moreover have "length ds \<le> length u" by (simp add: ds_def length_takeWhile_le)
  ultimately have l: "length ds \<le> 308" using assms by linarith
  have "\<forall>c\<in>set ds. isDigit c" by (auto simp: ds_def dest: set_takeWhileD)
  from digitsValue_bound [OF this] have b: "0 \<le> digitsValue ds" "digitsValue ds < 10 ^ length ds"
    by simp_all
  have "(10::int) ^ length ds \<le> 10 ^ 308" using l by (intro power_increasing) simp_all
  with b have "digitsValue ds < 10 ^ 308" by linarith
  from js_of_int_finite [OF b(1) this] obtain k where k: "js_of_int (digitsValue ds) = Num k" ..
  show ?thesis
    unfolding parseInt_def Let_def t_def [symmetric] u_def [symmetric] ds_def [symmetric]
    by (simp add: k)
qed

lemma validInterval_toJSON: "validInterval v \<Longrightarrow> validInterval (toJSON v)"
  by (cases v) (auto simp: validInterval_def split: jsnum.splits)

lemma validInterval_positive:
  assumes "validInterval v"
  shows "js_lt (Num 0) (js_mul (toNumber v) (Num msInDay))"
proof -
  from assms obtain n where "v = Number (Num n)" "1 \<le> n"
    by (cases v) (auto simp: validInterval_def split: jsnum.splits)
  then show ?thesis by (simp add: js_lt_zero_of_int msInDay_def)
qed

lemma validIntervals_save:
  assumes "validIntervals s" and "1 \<le> n"
  shows "validIntervals (handleSaveReminder now (Num n) s)"
proof (cases "\<exists>name. identifiedPlant s = Some name \<and> name \<noteq> []")
  case False
  with assms show ?thesis by (simp add: handleSaveReminder_unchanged)
next
  case True
  then obtain name where n: "identifiedPlant s = Some name" "name \<noteq> []" by blast
  from assms(1) have r: "\<forall>r\<in>set (reminders s). validInterval (interval r)"
    by (simp add: validIntervals_def)
  have new: "validInterval (Number (Num n))" using assms(2) by (simp add: validInterval_def)
  show ?thesis
    using r new
    by (auto simp: validIntervals_def handleSaveReminder_eq [OF n] set_js_sort
        intro: validInterval_toJSON)
qed

lemma validIntervals_delete:
  assumes "validIntervals s"
  shows "validIntervals (handleDeleteReminder other s)"
  using assms
  by (auto simp: validIntervals_def handleDeleteReminder_eq intro: validInterval_toJSON)

lemma validIntervals_loadReminders:
  assumes "validIntervals s"
  shows "validIntervals (loadReminders later s)"
proof -
  from loadReminders_cases [of later s] show ?thesis
  proof
    assume a: "reminders (loadReminders later s) = reminders s
      \<and> (localStorage (loadReminders later s) = localStorage s
         \<or> localStorage (loadReminders later s) = None)"
    then have "storedObjects (loadReminders later s) = storedObjects s
        \<or> storedObjects (loadReminders later s) = []"
      by (auto simp: storedObjects_def)
    with a assms show ?thesis by (auto simp: validIntervals_def)
  next
    assume "\<exists>objs. localStorage s = Some (Json objs)
         \<and> localStorage (loadReminders later s) = Some (Json objs)
         \<and> reminders (loadReminders later s)
             = js_sort byNextWateringDate (map (\<lambda>obj. fst (deriveReminder later (asReminder obj))) objs)"
    then obtain objs where o: "localStorage s = Some (Json objs)"
      "localStorage (loadReminders later s) = Some (Json objs)"
      "reminders (loadReminders later s)
             = js_sort byNextWateringDate (map (\<lambda>obj. fst (deriveReminder later (asReminder obj))) objs)"
      by blast
    from assms o(1) have "\<forall>obj\<in>set objs. validInterval (interval (asReminder obj))"
      by (simp add: validIntervals_def storedObjects_def)
    then show ?thesis
      by (auto simp: validIntervals_def storedObjects_def o(2,3) set_js_sort)
  qed
qed

lemma digitsValue_nines: "foldl (\<lambda>acc c. 10 * acc + (int c - 48)) a (replicate k 57) = (a + 1) * 10 ^ k - 1"
  by (induction k arbitrary: a) (simp_all add: algebra_simps)

lemma parseInt_nines: "parseInt (replicate 309 57) = PosInf"
proof -
  define xs :: "nat list" where "xs = replicate 309 57"
  have d: "digitsValue xs = 10 ^ 309 - 1"
    using digitsValue_nines [of 0 309] by (simp add: digitsValue_def xs_def)
  have w: "dropWhile isWhiteSpace xs = xs"
    unfolding xs_def by (simp only: dropWhile_replicate) (simp add: isWhiteSpace_def)
  have t: "takeWhile isDigit xs = xs"
    unfolding xs_def by (simp only: takeWhile_replicate) (simp add: isDigit_def)
  have ne: "xs \<noteq> []" by (simp add: xs_def)
  have h: "hd xs = 57" unfolding xs_def by (rule hd_replicate) simp
  have "parseInt xs = PosInf"
    unfolding parseInt_def Let_def w h by (simp add: t d ne js_of_int_def)
  then show ?thesis by (simp only: xs_def)
qed

text \<open>
  C8, as the specification words it, does not hold of the code. A value of 309 digits
  parses to \<open>Infinity\<close>, which is neither falsy nor rejected by the test \<open>interval > 0\<close>:
  the reminder is saved with an infinite interval, the stored array holds \<open>null\<close> for it, and
  on the next load the date arithmetic divides by zero.
\<close>

theorem C8_infinite_interval_accepted:
  "ReminderModal_onChange (replicate 309 57) = PosInf
   \<and> map interval (reminders (saveFromModal 1700000000000 (ReminderModal_onChange (replicate 309 57))
        ((load 1700000000000 None)\<lparr>identifiedPlant := Some (ascii ''Fern'')\<rparr>)))
      = [Number PosInf]
   \<and> map (\<lambda>obj. interval (asReminder obj))
       (storedObjects (saveFromModal 1700000000000 (ReminderModal_onChange (replicate 309 57))
        ((load 1700000000000 None)\<lparr>identifiedPlant := Some (ascii ''Fern'')\<rparr>)))
      = [Null]
   \<and> js_mul (toNumber Null) (Num msInDay) = Num 0
   \<and> map nextWateringDate (reminders (load 1700000000000 (localStorage
       (saveFromModal 1700000000000 (ReminderModal_onChange (replicate 309 57))
        ((load 1700000000000 None)\<lparr>identifiedPlant := Some (ascii ''Fern'')\<rparr>)))))
      = [InvalidDate]"
proof -
  have "ReminderModal_onChange (replicate 309 57) = PosInf"
    by (simp add: ReminderModal_onChange_def parseInt_nines)
  then show ?thesis
    by (simp add: saveFromModal_def ReminderModal_handleSave_def eval_defs)
qed

text \<open>
  C8, amended. The modal is the boundary where an interval is accepted: a value that parses
  to \<open>NaN\<close> or to 0 becomes 1, a value of at most 308 characters gives a finite number other
  than 0, and an interval that is not greater than 0 is not saved. Saving a finite interval
  from the modal, deleting and loading keep every interval of the list and of the stored
  array a whole number of at least one day, so that the divisor of the date arithmetic is
  positive; an infinite interval is not rejected.
\<close>

theorem C8_interval_coerced_at_the_boundary:
  "(parseInt v = NaN \<or> parseInt v = Num 0 \<longrightarrow> ReminderModal_onChange v = Num 1)
   \<and> (length v \<le> 308 \<longrightarrow> (\<exists>k. ReminderModal_onChange v = Num k \<and> k \<noteq> 0))
   \<and> (\<not> js_lt (Num 0) iv \<longrightarrow> saveFromModal now iv s = s)
   \<and> (validIntervals s \<and> iv \<noteq> PosInf \<longrightarrow> validIntervals (saveFromModal now iv s))
   \<and> (validIntervals s \<longrightarrow>
        validIntervals (handleDeleteReminder other s)
        \<and> validIntervals (loadReminders later s)
        \<and> (\<forall>obj\<in>set (storedObjects s).
              js_lt (Num 0) (js_mul (toNumber (interval (asReminder obj))) (Num msInDay))))
   \<and> validIntervals (initialState None)
   \<and> validInterval (Number ReminderModal_initialInterval)"
proof -
  have 1: "parseInt v = NaN \<or> parseInt v = Num 0 \<longrightarrow> ReminderModal_onChange v = Num 1"
    by (auto simp: ReminderModal_onChange_def Let_def)
  have 2: "\<exists>k. ReminderModal_onChange v = Num k \<and> k \<noteq> 0" if "length v \<le> 308"
    using parseInt_finite [OF that] by (auto simp: ReminderModal_onChange_def Let_def)
  have 3: "\<not> js_lt (Num 0) iv \<longrightarrow> saveFromModal now iv s = s"
    by (simp add: saveFromModal_def ReminderModal_handleSave_def)
  have 4: "validIntervals (saveFromModal now iv s)" if "validIntervals s" "iv \<noteq> PosInf"
  proof (cases iv)
    case (Num n)
    show ?thesis
    proof (cases "1 \<le> n")
      case True
      with that(1) Num show ?thesis
        by (simp add: saveFromModal_def ReminderModal_handleSave_def validIntervals_save)
    next
      case False
      with that(1) Num show ?thesis
        by (simp add: saveFromModal_def ReminderModal_handleSave_def)
    qed
  qed (use that in \<open>simp_all add: saveFromModal_def ReminderModal_handleSave_def\<close>)
  have 5: "\<forall>obj\<in>set (storedObjects s).
              js_lt (Num 0) (js_mul (toNumber (interval (asReminder obj))) (Num msInDay))"
    if "validIntervals s"
    using that by (auto simp: validIntervals_def intro: validInterval_positive)
  have 6: "validIntervals (initialState None)"
    by (simp add: validIntervals_def initialState_def storedObjects_def)
  have 7: "validInterval (Number ReminderModal_initialInterval)"
    by (simp add: validInterval_def ReminderModal_initialInterval_def)
  from 1 2 3 4 5 6 7 validIntervals_delete [of s other] validIntervals_loadReminders [of s later]
  show ?thesis by blast
qed

theorem C8_interval_coerced_at_the_boundary_witness:
  "ReminderModal_onChange (ascii ''0'') = Num 1
   \<and> ReminderModal_onChange (ascii ''abc'') = Num 1
   \<and> ReminderModal_onChange (ascii ''12'') = Num 12
   \<and> saveFromModal 1700000000000 (Num (- 5))
        ((load 1700000000000 None)\<lparr>identifiedPlant := Some (ascii ''Fern'')\<rparr>)
      = (load 1700000000000 None)\<lparr>identifiedPlant := Some (ascii ''Fern'')\<rparr>
   \<and> validIntervals (saveFromModal 1700000000000 (ReminderModal_onChange (ascii ''0''))
        ((load 1700000000000 None)\<lparr>identifiedPlant := Some (ascii ''Fern'')\<rparr>))
   \<and> map interval (reminders (saveFromModal 1700000000000 (ReminderModal_onChange (ascii ''0''))
        ((load 1700000000000 None)\<lparr>identifiedPlant := Some (ascii ''Fern'')\<rparr>)))
      = [Number (Num 1)]"
  using C8_interval_coerced_at_the_boundary
    [of "ascii ''0''" "Num (- 5)" 1700000000000
        "(load 1700000000000 None)\<lparr>identifiedPlant := Some (ascii ''Fern'')\<rparr>"
        "ascii ''Rose''" 1700000000000]
    C8_interval_coerced_at_the_boundary
    [of "ascii ''abc''" "Num 1" 1700000000000
        "(load 1700000000000 None)\<lparr>identifiedPlant := Some (ascii ''Fern'')\<rparr>"
        "ascii ''Rose''" 1700000000000]
  by (simp add: eval_defs saveFromModal_def ReminderModal_handleSave_def ReminderModal_onChange_def
      parseInt_def isWhiteSpace_def isDigit_def digitsValue_def validIntervals_def validInterval_def)

section \<open>Properties of the conversation\<close>

text \<open>
  C5. When \<open>handleSendMessage\<close> runs (the input is not blank and no call is outstanding)
  and the call to the model fails, the messages are those before the call, the error is set,
  and the session handle is the one held before, or the one created for this call when none
  was held. For comparison, a successful call appends the user's turn and the reply.
\<close>

theorem C5_failed_send_rolls_back:
  assumes "trim (userInput s) \<noteq> []" and "\<not> isLoading s"
  shows "messages (handleSendMessage created Rejected s) = messages s
         \<and> error (handleSendMessage created Rejected s) = Some ServerFailed
         \<and> chatSession (handleSendMessage created Rejected s)
             = (case chatSession s of None \<Rightarrow> Some created | Some handle \<Rightarrow> Some handle)
         \<and> isLoading (handleSendMessage created Rejected s) = False
         \<and> messages (handleSendMessage created (Fulfilled reply) s)
             = messages s @ [\<lparr>role = User, msgText = userInput s\<rparr>, \<lparr>role = Model, msgText = reply\<rparr>]"
  using assms
  by (simp add: handleSendMessage_def Let_def split: option.splits)

theorem C5_failed_send_rolls_back_witness:
  "messages (handleSendMessage 2 Rejected
      ((initialState None)\<lparr>messages := [\<lparr>role = Model, msgText = ascii ''It is a fern.''\<rparr>],
          userInput := ascii ''How often do I water it?'', chatSession := Some 1\<rparr>))
   = [\<lparr>role = Model, msgText = ascii ''It is a fern.''\<rparr>]
   \<and> chatSession (handleSendMessage 2 Rejected
      ((initialState None)\<lparr>messages := [\<lparr>role = Model, msgText = ascii ''It is a fern.''\<rparr>],
          userInput := ascii ''How often do I water it?'', chatSession := Some 1\<rparr>))
   = Some 1"
proof -
  let ?s = "(initialState None)\<lparr>messages := [\<lparr>role = Model, msgText = ascii ''It is a fern.''\<rparr>],
          userInput := ascii ''How often do I water it?'', chatSession := Some 1\<rparr>"
  have a: "trim (userInput ?s) \<noteq> []"
    by (simp add: initialState_def trim_def ascii_def isWhiteSpace_def)
  have b: "\<not> isLoading ?s"
    by (simp add: initialState_def)
  from C5_failed_send_rolls_back [OF a b, of 2] show ?thesis
    by (simp add: initialState_def)
qed

section \<open>Properties of the identification\<close>

lemma matchSpacesSeparator_sep: "matchSpacesSeparator s \<Longrightarrow> \<exists>c\<in>set s. isSeparator c"
  by (induction s) auto

lemma matchName_sep: "matchName s = Some g \<Longrightarrow> \<exists>c\<in>set s. isSeparator c"
proof (induction s arbitrary: g)
  case Nil
  then show ?case by simp
next
  case (Cons c cs)
  show ?case
  proof (cases "matchSpacesSeparator (c # cs)")
    case True
    then show ?thesis by (rule matchSpacesSeparator_sep)
  next
    case False
    with Cons.prems obtain g' where "matchName cs = Some g'"
      by (auto split: if_splits)
    from Cons.IH [OF this] show ?thesis by auto
  qed
qed

lemma matchAfterLabel_sep: "matchAfterLabel s = Some g \<Longrightarrow> \<exists>c\<in>set s. isSeparator c"
proof (induction s arbitrary: g)
  case Nil
  then show ?case by simp
next
  case (Cons c cs)
  show ?case
  proof (cases "matchName (c # cs)")
    case (Some g')
    then show ?thesis by (rule matchName_sep)
  next
    case None
    with Cons.prems obtain g' where "matchAfterLabel cs = Some g'"
      by (auto split: if_splits option.splits)
    from Cons.IH [OF this] show ?thesis by auto
  qed
qed

lemma matchHere_present: "matchHere s = Some g \<Longrightarrow> nameFieldPresent s"
proof -
  assume m: "matchHere s = Some g"
  then have t: "take (length nameLabel) s = nameLabel"
    and a: "matchAfterLabel (drop (length nameLabel) s) = Some g"
    by (auto simp: matchHere_def split: if_splits)
  have "s = [] @ nameLabel @ drop (length nameLabel) s"
    using t by (metis append_Nil append_take_drop_id)
  moreover have "\<exists>c\<in>set (drop (length nameLabel) s). c = 47 \<or> c = 10"
    using matchAfterLabel_sep [OF a] by (simp add: isSeparator_def)
  ultimately show ?thesis unfolding nameFieldPresent_def by blast
qed

lemma nameFieldPresent_Cons: "nameFieldPresent s \<Longrightarrow> nameFieldPresent (c # s)"
  unfolding nameFieldPresent_def by (metis append_Cons)

lemma nameMatch_present: "nameMatch s = Some g \<Longrightarrow> nameFieldPresent s"
proof (induction s)
  case Nil
  then show ?case by simp
next
  case (Cons c cs)
  show ?case
  proof (cases "matchHere (c # cs)")
    case (Some g')
    then show ?thesis by (rule matchHere_present)
  next
    case None
    with Cons.prems have "nameMatch cs = Some g" by simp
    then show ?thesis using Cons.IH nameFieldPresent_Cons by blast
  qed
qed

lemma nameMatch_skip:
  assumes "\<forall>i<length before. take (length nameLabel) (drop i (before @ rest)) \<noteq> nameLabel"
  shows "nameMatch (before @ rest) = nameMatch rest"
  using assms
proof (induction before)
  case Nil
  then show ?case by simp
next
  case (Cons c cs)
  have "take (length nameLabel) (drop 0 ((c # cs) @ rest)) \<noteq> nameLabel"
    using Cons.prems by blast
  then have h: "matchHere (c # cs @ rest) = None"
    by (simp add: matchHere_def)
  have "\<forall>i<length cs. take (length nameLabel) (drop i (cs @ rest)) \<noteq> nameLabel"
  proof (intro allI impI)
    fix i assume "i < length cs"
    then have "Suc i < length (c # cs)" by simp
    from Cons.prems [rule_format, OF this] show "take (length nameLabel) (drop i (cs @ rest)) \<noteq> nameLabel"
      by simp
  qed
  from Cons.IH [OF this] h show ?case by simp
qed

lemma nameMatch_monsteraLine:
  "nameMatch (monsteraLine @ rest) = Some (ascii ''Monstera'')"
  by (simp add: monsteraLine_def nameLabel_def ascii_def matchHere_def isWhiteSpace_def
        isSeparator_def isLineTerminator_def)

lemma trim_Monstera: "trim (ascii ''Monstera'') = ascii ''Monstera''"
  by (simp add: trim_def ascii_def isWhiteSpace_def)

text \<open>
  C9, as the specification states it, fails: a reply may contain the example line and yet
  yield another name, because the first name field of the reply is the one matched.
\<close>

theorem C9_first_name_field_wins:
  "identifiedPlant (handleAnalyzeClick 1
      (Fulfilled (nameLabel @ ascii '' Rose / Rosa'' @ [10] @ monsteraLine))
      ((initialState None)\<lparr>imageFile := Some 0\<rparr>))
   = Some (ascii ''Rose'')"
  by (simp add: handleAnalyzeClick_def initialState_def monsteraLine_def nameLabel_def ascii_def
        matchHere_def isWhiteSpace_def isSeparator_def isLineTerminator_def trim_def Let_def)

text \<open>
  C9, amended. With an image selected: when no occurrence of the label starts before the
  example line \<open>Monstera / Monstera deliciosa\<close>, the extracted plant name is
  \<open>Monstera\<close>; and when the reply has no name field followed by a slash or a newline,
  the plant name stays \<open>null\<close>, the reply is the only conversation turn and no error is set.
\<close>

theorem C9_plant_name_extracted:
  assumes "imageFile s = Some file"
  shows "((\<forall>i<length before. take (length nameLabel) (drop i (before @ monsteraLine @ rest)) \<noteq> nameLabel)
            \<longrightarrow> identifiedPlant (handleAnalyzeClick created (Fulfilled (before @ monsteraLine @ rest)) s)
                  = Some (ascii ''Monstera''))
         \<and> (\<not> nameFieldPresent reply
            \<longrightarrow> identifiedPlant (handleAnalyzeClick created (Fulfilled reply) s) = None
                \<and> messages (handleAnalyzeClick created (Fulfilled reply) s)
                    = [\<lparr>role = Model, msgText = reply\<rparr>]
                \<and> error (handleAnalyzeClick created (Fulfilled reply) s) = None
                \<and> isLoading (handleAnalyzeClick created (Fulfilled reply) s) = False)"
proof (intro conjI impI)
  assume "\<forall>i<length before. take (length nameLabel) (drop i (before @ monsteraLine @ rest)) \<noteq> nameLabel"
  then have "nameMatch (before @ monsteraLine @ rest) = Some (ascii ''Monstera'')"
    by (simp add: nameMatch_skip nameMatch_monsteraLine)
  moreover have "ascii ''Monstera'' \<noteq> []" by (simp add: ascii_def)
  ultimately show "identifiedPlant (handleAnalyzeClick created (Fulfilled (before @ monsteraLine @ rest)) s)
                   = Some (ascii ''Monstera'')"
    using assms by (simp add: handleAnalyzeClick_def Let_def trim_Monstera)
next
  assume "\<not> nameFieldPresent reply"
  then have n: "nameMatch reply = None"
    using nameMatch_present [of reply] by (cases "nameMatch reply") auto
  show "identifiedPlant (handleAnalyzeClick created (Fulfilled reply) s) = None"
    and "messages (handleAnalyzeClick created (Fulfilled reply) s) = [\<lparr>role = Model, msgText = reply\<rparr>]"
    and "error (handleAnalyzeClick created (Fulfilled reply) s) = None"
    and "isLoading (handleAnalyzeClick created (Fulfilled reply) s) = False"
    using assms n by (simp_all add: handleAnalyzeClick_def Let_def)
qed

theorem C9_plant_name_extracted_witness:
  "identifiedPlant (handleAnalyzeClick 1 (Fulfilled (ascii ''Care tips:'' @ [10] @ monsteraLine @ [10]))
      ((initialState None)\<lparr>imageFile := Some 0\<rparr>)) = Some (ascii ''Monstera'')
   \<and> identifiedPlant (handleAnalyzeClick 1 (Fulfilled (ascii ''No plant found.''))
      ((initialState None)\<lparr>imageFile := Some 0\<rparr>)) = None
   \<and> messages (handleAnalyzeClick 1 (Fulfilled (ascii ''No plant found.''))
      ((initialState None)\<lparr>imageFile := Some 0\<rparr>))
      = [\<lparr>role = Model, msgText = ascii ''No plant found.''\<rparr>]"
proof -
  let ?s = "(initialState None)\<lparr>imageFile := Some 0\<rparr>"
  have img: "imageFile ?s = Some 0" by (simp add: initialState_def)
  have first: "\<forall>i<length (ascii ''Care tips:'' @ [10]).
      take (length nameLabel) (drop i ((ascii ''Care tips:'' @ [10]) @ monsteraLine @ [10])) \<noteq> nameLabel"
    by (simp add: ascii_def nameLabel_def monsteraLine_def All_less_Suc)
  have absent: "\<not> nameFieldPresent (ascii ''No plant found.'')"
  proof
    assume "nameFieldPresent (ascii ''No plant found.'')"
    then obtain before rest where "ascii ''No plant found.'' = before @ nameLabel @ rest"
      unfolding nameFieldPresent_def by blast
    then have "set (ascii ''No plant found.'') = set (before @ nameLabel @ rest)" by simp
    then have "42 \<in> set (ascii ''No plant found.'')" by (simp add: nameLabel_def)
    then show False by (simp add: ascii_def)
  qed
  from C9_plant_name_extracted [OF img, of "ascii ''Care tips:'' @ [10]" "[10]" 1 "ascii ''No plant found.''"]
    first absent
  show ?thesis by simp
qed

end
